theory Spec2Isabelle
  imports Complex_Main "HOL-Library.Word" "HOL-Library.Multiset" "HOL-Library.Signed_Division"
begin

section \<open>The sensor record, the board and the serial console\<close>

text \<open>
  The three sketches \<^verbatim>\<open>v2.ino\<close>, \<^verbatim>\<open>v3.ino\<close> and \<^verbatim>\<open>v4.ino\<close> poll a MAX30101 through the
  vendor's Bio Sensor Hub library. The library itself is not part of the repository, so
  the record it returns and the calls it offers are parameters of the model.

  Modelled from the spec: the vendor type \<^verbatim>\<open>bioData\<close> (declared in the vendor header,
  which is not among the sources) is the "transient reading record (heart rate,
  confidence, oxygen saturation, two raw LED intensities, status code)". Its fields are
  integers here; \<^verbatim>\<open>v2.ino\<close> spells the first field \<^verbatim>\<open>heartrate\<close>, the other two sketches
  \<^verbatim>\<open>heartRate\<close>.
\<close>

record bioData =
  heartRate :: int
  confidence :: int
  oxygen :: int
  irLed :: int
  redLed :: int
  status :: int

text \<open>
  \<^verbatim>\<open>struct Reading\<close> of \<^verbatim>\<open>v3.ino\<close>: six \<^verbatim>\<open>int\<close> fields. A field holds the value of a C
  \<^verbatim>\<open>int\<close>, whichever width the board gives it, and copying a field of \<^verbatim>\<open>bioData\<close> into a
  \<^verbatim>\<open>Reading\<close> is taken to keep its value. The counters of the sketches stay below 101,
  so they are plain numbers; the two \<^verbatim>\<open>long\<close> accumulators of \<^verbatim>\<open>v3.ino\<close> are 32-bit words
  (see \<open>v3_sum\<close>).
\<close>

record Reading =
  heartRate :: int
  confidence :: int
  oxygen :: int
  irLed :: int
  redLed :: int
  status :: int

datatype mode = MODE_ONE | MODE_TWO

text \<open>The configuration calls the sketches make on \<^verbatim>\<open>bioHub\<close>.\<close>

datatype hub_call =
    Begin
  | ConfigSensorBpm mode
  | SetPulseWidth int
  | ReadPulseWidth
  | SetSampleRate int
  | ReadSampleRate

text \<open>
  What \<^verbatim>\<open>Serial.print\<close> and \<^verbatim>\<open>Serial.println\<close> write: a text, an integer, a float with
  the number of decimals asked for, and the line end that \<^verbatim>\<open>println\<close> adds.
  C \<^verbatim>\<open>float\<close> values are modelled as reals: rounding is not modelled.
\<close>

datatype serial_out = Text string | IntVal int | FloatVal real nat | Newline

text \<open>
  Everything outside the sketch. \<open>hub\<close> is the code each configuration call returns,
  \<open>sensor k\<close> the record the \<open>k\<close>-th call of \<^verbatim>\<open>readSensorBpm\<close> returns, \<open>clock k\<close> the value
  the \<open>k\<close>-th call of \<^verbatim>\<open>millis\<close> returns (an \<^verbatim>\<open>unsigned long\<close>, 32 bits on the boards
  these sketches target). \<open>calls\<close>, \<open>reads\<close> and \<open>ticks\<close> record what the sketch has
  called so far, \<open>serial\<close> what it has printed. \<^verbatim>\<open>delay\<close> only lets time pass: it has
  no counterpart here, the clock ranges over all sequences of values, and what the
  delays make of successive clock values is a hypothesis wherever a property needs it.
\<close>

record env =
  hub :: "hub_call \<Rightarrow> int"
  sensor :: "nat \<Rightarrow> bioData"
  clock :: "nat \<Rightarrow> 32 word"
  calls :: "hub_call list"
  reads :: nat
  ticks :: nat
  serial :: "serial_out list"

definition bioHub :: "hub_call \<Rightarrow> env \<Rightarrow> int \<times> env" where
  "bioHub c e = (hub e c, e\<lparr>calls := calls e @ [c]\<rparr>)"

definition readSensorBpm :: "env \<Rightarrow> bioData \<times> env" where
  "readSensorBpm e = (sensor e (reads e), e\<lparr>reads := Suc (reads e)\<rparr>)"

definition millis :: "env \<Rightarrow> 32 word \<times> env" where
  "millis e = (clock e (ticks e), e\<lparr>ticks := Suc (ticks e)\<rparr>)"

definition emit :: "serial_out list \<Rightarrow> env \<Rightarrow> env" where
  "emit xs e = e\<lparr>serial := serial e @ xs\<rparr>"

section \<open>The configuration part of \<^verbatim>\<open>setup\<close>\<close>

definition width :: int where
  "width = 411"

definition samples :: int where
  "samples = 400"

text \<open>
  \<^verbatim>\<open>v2.ino\<close> lines 70 to 116, \<^verbatim>\<open>v3.ino\<close> lines 67 to 112 and \<^verbatim>\<open>v4.ino\<close> lines 56 to 101
  are the same statements: start the hub, configure it, set and read back the pulse
  width, set and read back the sample rate. The two calls before them, \<^verbatim>\<open>Serial.begin\<close>
  and \<^verbatim>\<open>Wire.begin\<close>, return nothing and print nothing.
\<close>

definition setup_config :: "env \<Rightarrow> env" where
  "setup_config e0 =
    (let (result, e) = bioHub Begin e0;
         e = (if result = 0 then emit [Text ''Sensor started!'', Newline] e else e);
         e = emit [Text ''Configuring Sensor....'', Newline] e;
         (error, e) = bioHub (ConfigSensorBpm MODE_ONE) e;
         e = (if error = 0 then emit [Text ''Sensor configured.'', Newline] e
              else emit [Text ''Error configuring sensor.'', Newline,
                         Text ''Error: '', IntVal error, Newline] e);
         (error, e) = bioHub (SetPulseWidth width) e;
         e = (if error = 0 then emit [Text ''Pulse Width Set.'', Newline] e
              else emit [Text ''Could not set Pulse Width.'', Newline,
                         Text ''Error: '', IntVal error, Newline] e);
         (pulseWidthVal, e) = bioHub ReadPulseWidth e;
         e = emit [Text ''Pulse Width: '', IntVal pulseWidthVal, Newline] e;
         (error, e) = bioHub (SetSampleRate samples) e;
         e = (if error = 0 then emit [Text ''Sample Rate Set.'', Newline] e
              else emit [Text ''Could not set Sample Rate!'', Newline,
                         Text ''Error: '', IntVal error, Newline] e);
         (sampleVal, e) = bioHub ReadSampleRate e;
         e = emit [Text ''Sample rate is set to: '', IntVal sampleVal, Newline] e
     in e)"

section \<open>\<^verbatim>\<open>v2.ino\<close>: running sums of up to five accepted readings\<close>

text \<open>
  The globals of \<^verbatim>\<open>v2.ino\<close>. The counter is a C \<^verbatim>\<open>int\<close> that only ever counts up from zero
  and is reset at five, so it is a natural number here; the four sums are \<^verbatim>\<open>float\<close>.
\<close>

record v2_state =
  validReadingsCount :: nat
  heartRateSum :: real
  oxygenSum :: real
  irLedSum :: real
  redLedSum :: real
  lastDisplayTime :: "32 word"

definition TARGET_READINGS :: nat where
  "TARGET_READINGS = 5"

definition DISPLAY_INTERVAL :: "32 word" where
  "DISPLAY_INTERVAL = 1000"

text \<open>The stabilisation loop of \<^verbatim>\<open>setup\<close>, lines 126 to 135: twenty readings, printed only.\<close>

definition v2_stabilize_body :: "env \<Rightarrow> env" where
  "v2_stabilize_body e0 =
    (let (body, e) = readSensorBpm e0
     in emit [Text ''Stabilization reading - HR: '', IntVal (bioData.heartRate body),
              Text '', Confidence: '', IntVal (bioData.confidence body),
              Text '', Status: '', IntVal (bioData.status body), Newline] e)"

function v2_stabilize :: "nat \<Rightarrow> env \<Rightarrow> env" where
  "v2_stabilize i e = (if i < 20 then v2_stabilize (i + 1) (v2_stabilize_body e) else e)"
  by pat_completeness auto
termination
  by (relation "measure (\<lambda>(i, e). 20 - i)") auto

declare v2_stabilize.simps [simp del]

definition v2_setup :: "env \<Rightarrow> env \<times> v2_state" where
  "v2_setup e0 =
    (let e = setup_config e0;
         e = emit [Text ''Loading up the buffer with data....'', Newline] e;
         e = emit [Text ''Allowing sensor to stabilize...'', Newline] e;
         e = v2_stabilize 0 e;
         (t, e) = millis e;
         e = emit [Text ''Starting data collection...'', Newline,
                   Text ''Only readings with confidence > 50 will be used for averaging.'', Newline,
                   Text ''Displaying averages of 5 valid readings every second.'', Newline,
                   Text ''----------------------------------------'', Newline] e
     in (e, \<lparr>validReadingsCount = 0, heartRateSum = 0, oxygenSum = 0, irLedSum = 0,
              redLedSum = 0, v2_state.lastDisplayTime = t\<rparr>))"

text \<open>Lines 152 to 178 of \<^verbatim>\<open>loop\<close>: add an accepted reading to the sums, or report the rejection.\<close>

definition v2_accumulate :: "bioData \<Rightarrow> env \<times> v2_state \<Rightarrow> env \<times> v2_state" where
  "v2_accumulate body es =
    (let (e, s) = es in
     if bioData.confidence body > 50 \<and> bioData.heartRate body > 0 \<and> bioData.oxygen body > 0
     then
       (let s = s\<lparr>heartRateSum := heartRateSum s + real_of_int (bioData.heartRate body),
                   oxygenSum := oxygenSum s + real_of_int (bioData.oxygen body),
                   irLedSum := irLedSum s + real_of_int (bioData.irLed body),
                   redLedSum := redLedSum s + real_of_int (bioData.redLed body),
                   validReadingsCount := validReadingsCount s + 1\<rparr>;
            e = emit [Text ''Valid reading #'', IntVal (int (validReadingsCount s)),
                      Text '' - HR: '', IntVal (bioData.heartRate body),
                      Text '', O2: '', IntVal (bioData.oxygen body),
                      Text '', Confidence: '', IntVal (bioData.confidence body), Newline] e
        in (e, s))
     else
       (emit [Text ''Rejected - HR: '', IntVal (bioData.heartRate body),
              Text '', O2: '', IntVal (bioData.oxygen body),
              Text '', Confidence: '', IntVal (bioData.confidence body),
              Text '', Status: '', IntVal (bioData.status body), Newline] e, s))"

text \<open>Lines 181 to 218 of \<^verbatim>\<open>loop\<close>: print the averages and start a new collection period.\<close>

definition v2_display :: "env \<times> v2_state \<Rightarrow> env \<times> v2_state" where
  "v2_display es =
    (let (e0, s) = es;
         (currentTime, e) = millis e0 in
     if currentTime - v2_state.lastDisplayTime s \<ge> DISPLAY_INTERVAL
        \<or> validReadingsCount s \<ge> TARGET_READINGS
     then
       (let e = (if validReadingsCount s > 0
                 then
                   (let avgHeartRate = heartRateSum s / real (validReadingsCount s);
                        avgOxygen = oxygenSum s / real (validReadingsCount s);
                        avgIrLed = irLedSum s / real (validReadingsCount s);
                        avgRedLed = redLedSum s / real (validReadingsCount s)
                    in emit [Text ''========================================'', Newline,
                             Text ''AVERAGES ('', IntVal (int (validReadingsCount s)),
                             Text '' valid readings):'', Newline,
                             Text ''Average Heart Rate: '', FloatVal avgHeartRate 1, Text '' BPM'', Newline,
                             Text ''Average Blood Oxygen: '', FloatVal avgOxygen 1, Text ''%'', Newline,
                             Text ''Average IR LED counts: '', FloatVal avgIrLed 0, Newline,
                             Text ''Average Red LED counts: '', FloatVal avgRedLed 0, Newline,
                             Text ''========================================'', Newline] e)
                 else emit [Text ''No valid readings (confidence > 50) in the last second.'', Newline] e)
        in (e, s\<lparr>validReadingsCount := 0, heartRateSum := 0, oxygenSum := 0, irLedSum := 0,
                  redLedSum := 0, v2_state.lastDisplayTime := currentTime\<rparr>))
     else (e, s))"

definition v2_loop :: "env \<times> v2_state \<Rightarrow> env \<times> v2_state" where
  "v2_loop es =
    (let (e0, s) = es;
         (body, e) = readSensorBpm e0
     in v2_display (v2_accumulate body (e, s)))"

section \<open>\<^verbatim>\<open>v3.ino\<close>: store up to a hundred readings, sort them at report time\<close>

text \<open>
  \<^verbatim>\<open>readings\<close> is an array of \<^verbatim>\<open>MAX_READINGS\<close> records, \<^verbatim>\<open>readingCount\<close> a C \<^verbatim>\<open>int\<close> that
  stays between 0 and \<^verbatim>\<open>MAX_READINGS\<close> and indexes the array: a natural number here.
\<close>

record v3_state =
  readings :: "Reading list"
  readingCount :: nat
  lastDisplayTime :: "32 word"

definition MAX_READINGS :: nat where
  "MAX_READINGS = 100"

text \<open>
  \<^verbatim>\<open>sortReadingsByConfidence\<close>, lines 51 to 61. The inner loop runs while
  \<^verbatim>\<open>j < n - i - 1\<close> and the outer one while \<^verbatim>\<open>i < n - 1\<close>, on C \<^verbatim>\<open>int\<close>s; on naturals
  the same tests are \<open>j + i + 1 < n\<close> and \<open>i + 1 < n\<close>.
\<close>

function sort_inner :: "Reading list \<Rightarrow> nat \<Rightarrow> nat \<Rightarrow> nat \<Rightarrow> Reading list" where
  "sort_inner arr n i j =
    (if j + i + 1 < n
     then sort_inner
            (if Reading.confidence (arr ! j) < Reading.confidence (arr ! (j + 1))
             then (arr[j := arr ! (j + 1)])[j + 1 := arr ! j]
             else arr) n i (j + 1)
     else arr)"
  by pat_completeness auto
termination
  by (relation "measure (\<lambda>(arr, n, i, j). n - j)") auto

declare sort_inner.simps [simp del]

function sort_outer :: "Reading list \<Rightarrow> nat \<Rightarrow> nat \<Rightarrow> Reading list" where
  "sort_outer arr n i = (if i + 1 < n then sort_outer (sort_inner arr n i 0) n (i + 1) else arr)"
  by pat_completeness auto
termination
  by (relation "measure (\<lambda>(arr, n, i). n - i)") auto

declare sort_outer.simps [simp del]

definition sortReadingsByConfidence :: "Reading list \<Rightarrow> nat \<Rightarrow> Reading list" where
  "sortReadingsByConfidence arr n = sort_outer arr n 0"

definition v3_setup :: "env \<Rightarrow> env \<times> v3_state" where
  "v3_setup e0 =
    (let e = setup_config e0;
         e = emit [Text ''Loading up the buffer with data....'', Newline] e;
         (t, e) = millis e
     in (e, \<lparr>readings = replicate MAX_READINGS
                 \<lparr>Reading.heartRate = 0, confidence = 0, oxygen = 0, irLed = 0, redLed = 0, status = 0\<rparr>,
              readingCount = 0, v3_state.lastDisplayTime = t\<rparr>))"

text \<open>Lines 125 to 133 of \<^verbatim>\<open>loop\<close>: the six fields of the reading are copied into the next slot.\<close>

definition v3_store :: "bioData \<Rightarrow> v3_state \<Rightarrow> v3_state" where
  "v3_store body s =
    (if bioData.confidence body > 50 \<and> readingCount s < MAX_READINGS
     then s\<lparr>readings := (readings s)[readingCount s :=
                 \<lparr>Reading.heartRate = bioData.heartRate body,
                  confidence = bioData.confidence body,
                  oxygen = bioData.oxygen body,
                  irLed = bioData.irLed body,
                  redLed = bioData.redLed body,
                  status = bioData.status body\<rparr>],
             readingCount := readingCount s + 1\<rparr>
     else s)"

text \<open>
  The summing loop, lines 150 to 156. The first three accumulators are \<^verbatim>\<open>float\<close>. The two
  LED accumulators are \<^verbatim>\<open>long\<close>, 32 bits wide like \<^verbatim>\<open>unsigned long\<close>: adding an \<^verbatim>\<open>int\<close> field
  converts it to \<^verbatim>\<open>long\<close> and adds modulo \<open>2^32\<close>, the two's complement wrap-around of the
  boards' compilers.
\<close>

function v3_sum :: "Reading list \<Rightarrow> nat \<Rightarrow> nat \<Rightarrow> real \<times> real \<times> real \<times> 32 word \<times> 32 word
    \<Rightarrow> real \<times> real \<times> real \<times> 32 word \<times> 32 word" where
  "v3_sum rs numToAverage i (avgHeartRate, avgOxygen, avgConfidence, avgIrLed, avgRedLed) =
    (if i < numToAverage
     then v3_sum rs numToAverage (i + 1)
            (avgHeartRate + real_of_int (Reading.heartRate (rs ! i)),
             avgOxygen + real_of_int (Reading.oxygen (rs ! i)),
             avgConfidence + real_of_int (Reading.confidence (rs ! i)),
             avgIrLed + word_of_int (Reading.irLed (rs ! i)),
             avgRedLed + word_of_int (Reading.redLed (rs ! i)))
     else (avgHeartRate, avgOxygen, avgConfidence, avgIrLed, avgRedLed))"
  by pat_completeness auto
termination
  by (relation "measure (\<lambda>(rs, n, i, acc). n - i)") auto

declare v3_sum.simps [simp del]

text \<open>
  The five averages, lines 143 to 162: the float accumulators are divided as floats, the
  \<^verbatim>\<open>long\<close> accumulators by C's integer division on their signed values, which truncates
  towards zero (\<open>sdiv\<close>); the quotient is again a \<^verbatim>\<open>long\<close>.
\<close>

definition v3_averages :: "Reading list \<Rightarrow> nat \<Rightarrow> real \<times> real \<times> real \<times> 32 word \<times> 32 word" where
  "v3_averages rs numToAverage =
    (let (avgHeartRate, avgOxygen, avgConfidence, avgIrLed, avgRedLed) =
           v3_sum rs numToAverage 0 (0, 0, 0, 0, 0)
     in (avgHeartRate / real numToAverage,
         avgOxygen / real numToAverage,
         avgConfidence / real numToAverage,
         word_of_int (sint avgIrLed sdiv int numToAverage),
         word_of_int (sint avgRedLed sdiv int numToAverage)))"

text \<open>
  Lines 136 to 183 of \<^verbatim>\<open>loop\<close>. \<^verbatim>\<open>Serial.println\<close> prints a \<^verbatim>\<open>long\<close> as the signed number it
  holds.
\<close>

definition v3_report :: "env \<times> v3_state \<Rightarrow> env \<times> v3_state" where
  "v3_report es =
    (let (e0, s) = es;
         (currentTime, e) = millis e0 in
     if currentTime - v3_state.lastDisplayTime s \<ge> DISPLAY_INTERVAL \<and> readingCount s > 0
     then
       (let rs = sortReadingsByConfidence (readings s) (readingCount s);
            numToAverage = min 5 (readingCount s);
            (avgHeartRate, avgOxygen, avgConfidence, avgIrLed, avgRedLed) =
               v3_averages rs numToAverage;
            e = emit [Newline, Text ''=== AVERAGED RESULTS (Top '', IntVal (int numToAverage),
                      Text '' readings) ==='', Newline,
                      Text ''Average Heartrate: '', FloatVal avgHeartRate 1, Newline,
                      Text ''Average Blood Oxygen: '', FloatVal avgOxygen 1, Newline,
                      Text ''Average Confidence: '', FloatVal avgConfidence 1, Newline,
                      Text ''Average IR LED: '', IntVal (sint avgIrLed), Newline,
                      Text ''Average Red LED: '', IntVal (sint avgRedLed), Newline,
                      Text ''Total readings collected: '', IntVal (int (readingCount s)), Newline,
                      Text ''================================'', Newline, Newline] e
        in (e, s\<lparr>readings := rs, readingCount := 0, v3_state.lastDisplayTime := currentTime\<rparr>))
     else (e, s))"

definition v3_loop :: "env \<times> v3_state \<Rightarrow> env \<times> v3_state" where
  "v3_loop es =
    (let (e0, s) = es;
         (body, e) = readSensorBpm e0
     in v3_report (e, v3_store body s))"

section \<open>\<^verbatim>\<open>v4.ino\<close>: replace the weakest of five slots\<close>

record v4_state =
  topReadings :: "bioData list"
  lastReportTime :: "32 word"

definition NUM_READINGS :: nat where
  "NUM_READINGS = 5"

text \<open>
  \<^verbatim>\<open>reportInterval\<close> is a \<^verbatim>\<open>const long\<close> compared with an \<^verbatim>\<open>unsigned long\<close> difference: with
  32-bit \<^verbatim>\<open>long\<close> the comparison is made on unsigned 32-bit values.
\<close>

definition reportInterval :: "32 word" where
  "reportInterval = 1000"

text \<open>The search for the weakest slot, lines 129 to 134.\<close>

function v4_findMin :: "bioData list \<Rightarrow> nat \<Rightarrow> nat \<Rightarrow> nat" where
  "v4_findMin tr i minConfidenceIndex =
    (if i < NUM_READINGS
     then v4_findMin tr (i + 1)
            (if bioData.confidence (tr ! i) < bioData.confidence (tr ! minConfidenceIndex)
             then i else minConfidenceIndex)
     else minConfidenceIndex)"
  by pat_completeness auto
termination
  by (relation "measure (\<lambda>(tr, i, m). NUM_READINGS - i)") auto

declare v4_findMin.simps [simp del]

text \<open>Lines 127 to 141 of \<^verbatim>\<open>loop\<close>.\<close>

definition v4_insert :: "bioData \<Rightarrow> bioData list \<Rightarrow> bioData list" where
  "v4_insert body tr =
    (if bioData.confidence body > 50
     then
       (let minConfidenceIndex = v4_findMin tr 1 0
        in if bioData.confidence body > bioData.confidence (tr ! minConfidenceIndex)
           then tr[minConfidenceIndex := body]
           else tr)
     else tr)"

text \<open>
  The summing loop, lines 153 to 160. Its local counter \<^verbatim>\<open>validReadingsCount\<close> is \<open>validCount\<close>
  here, the longer name being the global of \<^verbatim>\<open>v2.ino\<close>.
\<close>

function v4_sum :: "bioData list \<Rightarrow> nat \<Rightarrow> real \<times> real \<times> nat \<Rightarrow> real \<times> real \<times> nat" where
  "v4_sum tr i (totalHeartRate, totalOxygen, validCount) =
    (if i < NUM_READINGS
     then v4_sum tr (i + 1)
            (if bioData.confidence (tr ! i) > 0
             then (totalHeartRate + real_of_int (bioData.heartRate (tr ! i)),
                   totalOxygen + real_of_int (bioData.oxygen (tr ! i)),
                   validCount + 1)
             else (totalHeartRate, totalOxygen, validCount))
     else (totalHeartRate, totalOxygen, validCount))"
  by pat_completeness auto
termination
  by (relation "measure (\<lambda>(tr, i, acc). NUM_READINGS - i)") auto

declare v4_sum.simps [simp del]

text \<open>
  The loop that clears three fields of every slot: lines 105 to 109 in \<^verbatim>\<open>setup\<close> and
  lines 192 to 196 in \<^verbatim>\<open>loop\<close>.
\<close>

function v4_reset :: "bioData list \<Rightarrow> nat \<Rightarrow> bioData list" where
  "v4_reset tr i =
    (if i < NUM_READINGS
     then v4_reset (tr[i := (tr ! i)\<lparr>bioData.confidence := 0, bioData.heartRate := 0,
                                     bioData.oxygen := 0\<rparr>]) (i + 1)
     else tr)"
  by pat_completeness auto
termination
  by (relation "measure (\<lambda>(tr, i). NUM_READINGS - i)") auto

declare v4_reset.simps [simp del]

text \<open>
  \<^verbatim>\<open>topReadings\<close> and \<^verbatim>\<open>lastReportTime\<close> are globals: they start zeroed, and \<^verbatim>\<open>setup\<close> clears
  the three fields again.
\<close>

definition v4_setup :: "env \<Rightarrow> env \<times> v4_state" where
  "v4_setup e0 =
    (let e = setup_config e0;
         tr = v4_reset (replicate NUM_READINGS
                 \<lparr>bioData.heartRate = 0, confidence = 0, oxygen = 0, irLed = 0, redLed = 0,
                  status = 0\<rparr>) 0;
         e = emit [Newline,
                   Text ''Now collecting data. Averaged report will be displayed every second.'', Newline,
                   Text ''Make sure your finger is placed firmly on the sensor.'', Newline] e
     in (e, \<lparr>topReadings = tr, lastReportTime = 0\<rparr>))"

text \<open>
  Lines 145 to 197 of \<^verbatim>\<open>loop\<close>. \<^verbatim>\<open>millis\<close> is called once for the test, once more for
  the new \<^verbatim>\<open>lastReportTime\<close> and a third time for the printed time stamp.
\<close>

definition v4_report :: "env \<times> v4_state \<Rightarrow> env \<times> v4_state" where
  "v4_report es =
    (let (e0, s) = es;
         (t, e) = millis e0 in
     if t - lastReportTime s \<ge> reportInterval
     then
       (let (t', e) = millis e;
            (totalHeartRate, totalOxygen, validCount) = v4_sum (topReadings s) 0 (0, 0, 0);
            e = emit [Text ''----------------------------------------'', Newline] e;
            e = (if validCount = NUM_READINGS
                 then
                   (let avgHeartRate = totalHeartRate / real NUM_READINGS;
                        avgOxygen = totalOxygen / real NUM_READINGS;
                        (now, e) = millis e
                    in emit [Text ''Time: '', IntVal (uint (now div 1000)), Text ''s'', Newline,
                             Text ''Averaged Report (from top 5 readings):'', Newline,
                             Text ''Average Heart Rate: '', FloatVal avgHeartRate 2, Newline,
                             Text ''Average SpO2: '', FloatVal avgOxygen 2, Newline] e)
                 else emit [Text ''Collecting high-confidence data... ('',
                            IntVal (int validCount), Text ''/'',
                            IntVal (int NUM_READINGS), Text '' collected)'', Newline] e);
            e = emit [Text ''----------------------------------------'', Newline] e
        in (e, s\<lparr>topReadings := v4_reset (topReadings s) 0, lastReportTime := t'\<rparr>))
     else (e, s))"

definition v4_loop :: "env \<times> v4_state \<Rightarrow> env \<times> v4_state" where
  "v4_loop es =
    (let (e0, s) = es;
         (body, e) = readSensorBpm e0
     in v4_report (e, s\<lparr>topReadings := v4_insert body (topReadings s)\<rparr>))"

section \<open>Notions the properties are stated with\<close>

text \<open>What a call printed: the part of the console output added between two environments.\<close>

definition printed :: "env \<Rightarrow> env \<Rightarrow> serial_out list" where
  "printed e e' = drop (length (serial e)) (serial e')"

text \<open>The populated slots of \<^verbatim>\<open>topReadings\<close>: those whose confidence is above zero.\<close>

definition populated :: "bioData list \<Rightarrow> bioData list" where
  "populated tr = filter (\<lambda>r. 0 < bioData.confidence r) tr"

text \<open>A slot after the reset loop of \<^verbatim>\<open>v4.ino\<close> has passed over it.\<close>

definition clear :: "bioData \<Rightarrow> bioData" where
  "clear r = r\<lparr>bioData.confidence := 0, bioData.heartRate := 0, bioData.oxygen := 0\<rparr>"

text \<open>The threshold test the three sketches share, and the full test of \<^verbatim>\<open>v2.ino\<close>.\<close>

definition confident :: "bioData \<Rightarrow> bool" where
  "confident body = (50 < bioData.confidence body)"

definition accepted_v2 :: "bioData \<Rightarrow> bool" where
  "accepted_v2 body =
     (50 < bioData.confidence body \<and> 0 < bioData.heartRate body \<and> 0 < bioData.oxygen body)"

text \<open>
  A window is a sequence of readings handled with no report in between: in each sketch,
  the step that takes a reading in, repeated over the sequence.
\<close>

definition v2_window :: "env \<times> v2_state \<Rightarrow> bioData list \<Rightarrow> env \<times> v2_state" where
  "v2_window es bodies = foldl (\<lambda>es body. v2_accumulate body es) es bodies"

definition v3_window :: "v3_state \<Rightarrow> bioData list \<Rightarrow> v3_state" where
  "v3_window s bodies = foldl (\<lambda>s body. v3_store body s) s bodies"





text \<open>The state of \<^verbatim>\<open>v2.ino\<close> right after a report made at time \<open>t\<close>.\<close>

definition v2_empty :: "32 word \<Rightarrow> v2_state" where
  "v2_empty t = \<lparr>validReadingsCount = 0, heartRateSum = 0, oxygenSum = 0, irLedSum = 0,
                 redLedSum = 0, v2_state.lastDisplayTime = t\<rparr>"

text \<open>
  The record \<^verbatim>\<open>v3.ino\<close> stores for a reading, and the part of \<^verbatim>\<open>readings\<close> that is in use.
\<close>

definition reading_of :: "bioData \<Rightarrow> Reading" where
  "reading_of body =
     \<lparr>Reading.heartRate = bioData.heartRate body, confidence = bioData.confidence body,
      oxygen = bioData.oxygen body, irLed = bioData.irLed body, redLed = bioData.redLed body,
      status = bioData.status body\<rparr>"

definition stored :: "v3_state \<Rightarrow> Reading list" where
  "stored s = take (readingCount s) (readings s)"

text \<open>Sorted by confidence, highest first.\<close>

definition descending :: "Reading list \<Rightarrow> bool" where
  "descending rs = sorted_wrt (\<lambda>a b. Reading.confidence b \<le> Reading.confidence a) rs"


text \<open>
  The number a 32-bit \<^verbatim>\<open>long\<close> holds after an integer has been put into it: the integer
  itself when it lies between \<open>- 2^31\<close> and \<open>2^31 - 1\<close>, wrapped around otherwise.
\<close>

definition long_value :: "int \<Rightarrow> int" where
  "long_value x = sint (word_of_int x :: 32 word)"

text \<open>The arithmetic mean of a list of integers.\<close>

definition mean :: "int list \<Rightarrow> real" where
  "mean xs = real_of_int (sum_list xs) / real (length xs)"

section \<open>Example inputs\<close>

text \<open>A reading with confidence \<open>c\<close> and heart rate \<open>h\<close>, and a sequence of such readings.\<close>

definition slot :: "int \<Rightarrow> int \<Rightarrow> bioData" where
  "slot c h = \<lparr>bioData.heartRate = h, confidence = c, oxygen = 97, irLed = 0, redLed = 0, status = 3\<rparr>"

definition three_readings :: "bioData list" where
  "three_readings = [slot 60 70, slot 40 71, slot 90 72]"

text \<open>A sensor that returns \<open>slot 60 70\<close> first and another record ever after.\<close>

definition other_records :: "nat \<Rightarrow> bioData" where
  "other_records k = (if k = 0 then slot 60 70 else slot 99 99)"



text \<open>
  A board whose hub calls all succeed, with a given sensor and clock; the same with a
  sensor that always returns \<open>r\<close> and a clock that always reads \<open>t\<close>; a board whose
  \<^verbatim>\<open>begin\<close> returns 7; one whose \<^verbatim>\<open>configSensorBpm\<close> returns 4.
\<close>

definition board :: "(nat \<Rightarrow> bioData) \<Rightarrow> (nat \<Rightarrow> 32 word) \<Rightarrow> env" where
  "board sn ck = \<lparr>hub = (\<lambda>c. 0), sensor = sn, clock = ck, calls = [], reads = 0, ticks = 0, serial = []\<rparr>"

definition steady :: "bioData \<Rightarrow> 32 word \<Rightarrow> env" where
  "steady r t = board (\<lambda>k. r) (\<lambda>k. t)"

definition failing_begin :: env where
  "failing_begin = \<lparr>hub = (\<lambda>c. if c = Begin then 7 else 0), sensor = (\<lambda>k. slot 60 70),
                     clock = (\<lambda>k. 5000), calls = [], reads = 0, ticks = 0, serial = []\<rparr>"

definition failing_config :: env where
  "failing_config = \<lparr>hub = (\<lambda>c. if c = ConfigSensorBpm MODE_ONE then 4 else 0),
                      sensor = (\<lambda>k. slot 60 70),
                      clock = (\<lambda>k. 5000), calls = [], reads = 0, ticks = 0, serial = []\<rparr>"

text \<open>
  States of \<^verbatim>\<open>v2.ino\<close>: four readings accumulated (heart rates summing to 280), last
  report at 5000 ms.
\<close>

definition four_valid :: v2_state where
  "four_valid = \<lparr>validReadingsCount = 4, heartRateSum = 280, oxygenSum = 388, irLedSum = 0,
                  redLedSum = 0, v2_state.lastDisplayTime = 5000\<rparr>"

text \<open>
  States of \<^verbatim>\<open>v3.ino\<close>: nothing stored; the buffer full; two readings stored whose IR
  intensities are 1 and 2 and whose red intensities are 10 and 20.
\<close>

definition empty_v3 :: v3_state where
  "empty_v3 = \<lparr>readings = replicate MAX_READINGS
                   \<lparr>Reading.heartRate = 0, confidence = 0, oxygen = 0, irLed = 0, redLed = 0, status = 0\<rparr>,
                readingCount = 0, v3_state.lastDisplayTime = 5000\<rparr>"

definition full_v3 :: v3_state where
  "full_v3 = \<lparr>readings = replicate MAX_READINGS (reading_of (slot 60 70)),
               readingCount = MAX_READINGS, v3_state.lastDisplayTime = 5000\<rparr>"

definition led_reading :: "int \<Rightarrow> int \<Rightarrow> int \<Rightarrow> int \<Rightarrow> Reading" where
  "led_reading c h ir red =
     \<lparr>Reading.heartRate = h, confidence = c, oxygen = 97, irLed = ir, redLed = red, status = 3\<rparr>"

definition two_leds :: v3_state where
  "two_leds = \<lparr>readings = led_reading 80 70 1 10 # led_reading 60 72 2 20 #
                   replicate 98 (led_reading 0 0 0 0),
                readingCount = 2, v3_state.lastDisplayTime = 5000\<rparr>"

text \<open>Five readings stored whose IR intensities are 2000000000 each.\<close>

definition big_leds :: v3_state where
  "big_leds = \<lparr>readings = replicate 5 (led_reading 80 70 2000000000 10) @
                   replicate 95 (led_reading 0 0 0 0),
                readingCount = 5, v3_state.lastDisplayTime = 5000\<rparr>"

text \<open>States of \<^verbatim>\<open>v4.ino\<close>: three of the five slots populated; all five populated.\<close>

definition partial_window :: v4_state where
  "partial_window = \<lparr>topReadings = [slot 60 70, slot 0 0, slot 90 72, slot 0 0, slot 80 74],
                      lastReportTime = 5000\<rparr>"

definition full_window :: v4_state where
  "full_window = \<lparr>topReadings = [slot 60 70, slot 55 71, slot 90 72, slot 55 73, slot 80 74],
                   lastReportTime = 5000\<rparr>"



section \<open>The insertion step of \<^verbatim>\<open>v4.ino\<close>\<close>

lemma v4_findMin_spec:
  "m < i \<Longrightarrow> i \<le> NUM_READINGS \<Longrightarrow>
   v4_findMin tr i m < NUM_READINGS \<and>
   (v4_findMin tr i m = m \<or> i \<le> v4_findMin tr i m) \<and>
   bioData.confidence (tr ! v4_findMin tr i m) \<le> bioData.confidence (tr ! m) \<and>
   (\<forall>k. i \<le> k \<and> k < NUM_READINGS \<longrightarrow>
        bioData.confidence (tr ! v4_findMin tr i m) \<le> bioData.confidence (tr ! k))"
proof (induction tr i m rule: v4_findMin.induct)
  case (1 tr i m)
  show ?case
  proof (cases "i < NUM_READINGS")
    case False
    then have "v4_findMin tr i m = m" by (subst v4_findMin.simps) simp
    with 1 False show ?thesis by simp
  next
    case True
    let ?m' = "if bioData.confidence (tr ! i) < bioData.confidence (tr ! m) then i else m"
    have IH: "v4_findMin tr (i + 1) ?m' < NUM_READINGS \<and>
   (v4_findMin tr (i + 1) ?m' = ?m' \<or> i + 1 \<le> v4_findMin tr (i + 1) ?m') \<and>
   bioData.confidence (tr ! v4_findMin tr (i + 1) ?m') \<le> bioData.confidence (tr ! ?m') \<and>
   (\<forall>k. i + 1 \<le> k \<and> k < NUM_READINGS \<longrightarrow>
        bioData.confidence (tr ! v4_findMin tr (i + 1) ?m') \<le> bioData.confidence (tr ! k))"
      using 1 True by auto
    have eq: "v4_findMin tr i m = v4_findMin tr (i + 1) ?m'"
      using True by (subst v4_findMin.simps) simp
    show ?thesis
      unfolding eq using IH 1(2)
      apply (intro conjI)
         apply simp
        apply (auto split: if_splits)[1]
       apply (auto split: if_splits)[1]
      apply clarify
      subgoal for k
        apply (cases "k = i")
         apply (auto split: if_splits)[1]
        apply (auto split: if_splits)[1]
        done
      done
  qed
qed

lemma v4_findMin_is_Min:
  assumes "length tr = NUM_READINGS"
  shows "v4_findMin tr 1 0 < NUM_READINGS"
    and "bioData.confidence (tr ! v4_findMin tr 1 0) = Min (set (map bioData.confidence tr))"
proof -
  have spec: "v4_findMin tr 1 0 < NUM_READINGS \<and>
   (v4_findMin tr 1 0 = 0 \<or> 1 \<le> v4_findMin tr 1 0) \<and>
   bioData.confidence (tr ! v4_findMin tr 1 0) \<le> bioData.confidence (tr ! 0) \<and>
   (\<forall>k. 1 \<le> k \<and> k < NUM_READINGS \<longrightarrow>
        bioData.confidence (tr ! v4_findMin tr 1 0) \<le> bioData.confidence (tr ! k))"
    by (rule v4_findMin_spec) (simp_all add: NUM_READINGS_def)
  then show lt: "v4_findMin tr 1 0 < NUM_READINGS" by simp
  have le: "bioData.confidence (tr ! v4_findMin tr 1 0) \<le> bioData.confidence (tr ! k)"
    if "k < NUM_READINGS" for k
    using spec that by (cases "k = 0") auto
  show "bioData.confidence (tr ! v4_findMin tr 1 0) = Min (set (map bioData.confidence tr))"
  proof (rule Min_eqI [symmetric])
    show "finite (set (map bioData.confidence tr))" by simp
  next
    fix y assume "y \<in> set (map bioData.confidence tr)"
    then obtain k where "k < length tr" "y = bioData.confidence (tr ! k)"
      by (auto simp: in_set_conv_nth)
    then show "bioData.confidence (tr ! v4_findMin tr 1 0) \<le> y"
      using le assms by simp
  next
    show "bioData.confidence (tr ! v4_findMin tr 1 0) \<in> set (map bioData.confidence tr)"
      using lt assms by simp
  qed
qed

text \<open>
  C3. In \<^verbatim>\<open>v4.ino\<close>, for a reading whose confidence is above 50 the search ends on a slot
  that holds the least confidence of the five slots, and the reading replaces that slot
  exactly when its confidence is strictly greater than that least value; otherwise the
  buffer stays as it is.
\<close>

theorem v4_insert_replaces_minimum:
  assumes "length tr = NUM_READINGS" and "bioData.confidence body > 50"
  shows "v4_findMin tr 1 0 < NUM_READINGS
       \<and> bioData.confidence (tr ! v4_findMin tr 1 0) = Min (set (map bioData.confidence tr))
       \<and> v4_insert body tr =
           (if bioData.confidence body > Min (set (map bioData.confidence tr))
            then tr[v4_findMin tr 1 0 := body] else tr)"
  using assms v4_findMin_is_Min [OF assms(1)] by (simp add: v4_insert_def Let_def)

lemma w_findMin: "v4_findMin [slot 60 70, slot 55 71, slot 90 72, slot 55 73, slot 80 74] 1 0 = 1"
  by (simp add: v4_findMin.simps NUM_READINGS_def slot_def)

theorem v4_insert_replaces_minimum_witness:
  "v4_insert (slot 70 75) [slot 60 70, slot 55 71, slot 90 72, slot 55 73, slot 80 74]
     = [slot 60 70, slot 70 75, slot 90 72, slot 55 73, slot 80 74]
   \<and> v4_insert (slot 55 75) [slot 60 70, slot 55 71, slot 90 72, slot 55 73, slot 80 74]
     = [slot 60 70, slot 55 71, slot 90 72, slot 55 73, slot 80 74]"
proof -
  let ?tr = "[slot 60 70, slot 55 71, slot 90 72, slot 55 73, slot 80 74]"
  have len: "length ?tr = NUM_READINGS" by (simp add: NUM_READINGS_def)
  have above: "bioData.confidence (slot 70 75) > 50" "bioData.confidence (slot 55 75) > 50"
    by (simp_all add: slot_def)
  have least: "Min (set (map bioData.confidence ?tr)) = 55" by (simp add: slot_def)
  have cs: "bioData.confidence (slot 70 75) = 70" "bioData.confidence (slot 55 75) = 55"
    by (simp_all add: slot_def)
  have a: "v4_insert (slot 70 75) ?tr = ?tr[1 := slot 70 75]"
    using v4_insert_replaces_minimum [OF len above(1)] unfolding least w_findMin cs by simp
  have b: "v4_insert (slot 55 75) ?tr = ?tr"
    using v4_insert_replaces_minimum [OF len above(2)] unfolding least w_findMin cs by simp
  show ?thesis unfolding a b by simp
qed

section \<open>The report step\<close>

lemmas board_defs = bioHub_def readSensorBpm_def millis_def emit_def

lemma v4_sum_from:
  "length tr = NUM_READINGS \<Longrightarrow> i \<le> NUM_READINGS \<Longrightarrow>
   v4_sum tr i (a, b, c) =
     (a + real_of_int (sum_list (map bioData.heartRate (populated (drop i tr)))),
      b + real_of_int (sum_list (map bioData.oxygen (populated (drop i tr)))),
      c + length (populated (drop i tr)))"
proof (induction "NUM_READINGS - i" arbitrary: i a b c)
  case 0
  then show ?case by (subst v4_sum.simps) (simp add: populated_def)
next
  case (Suc k)
  then have lt: "i < NUM_READINGS" and k: "k = NUM_READINGS - (i + 1)" by simp_all
  have drop: "drop i tr = tr ! i # drop (i + 1) tr"
    using lt Suc.prems by (simp add: Cons_nth_drop_Suc)
  show ?case
    using lt Suc.prems Suc.hyps(1) [OF k]
    by (subst v4_sum.simps) (simp add: drop populated_def)
qed

lemma v4_sum_all:
  "length tr = NUM_READINGS \<Longrightarrow>
   v4_sum tr 0 (0, 0, 0) =
     (real_of_int (sum_list (map bioData.heartRate (populated tr))),
      real_of_int (sum_list (map bioData.oxygen (populated tr))),
      length (populated tr))"
  using v4_sum_from [of tr 0 0 0 0] by simp

lemma v4_reset_from:
  "length tr = NUM_READINGS \<Longrightarrow> i \<le> NUM_READINGS \<Longrightarrow>
   v4_reset tr i = take i tr @ map clear (drop i tr)"
proof (induction "NUM_READINGS - i" arbitrary: i tr)
  case 0
  then show ?case by (subst v4_reset.simps) simp
next
  case (Suc k)
  then have lt: "i < NUM_READINGS" and k: "k = NUM_READINGS - (i + 1)" by simp_all
  have il: "i < length tr" using lt Suc.prems by simp
  have drop: "drop i tr = tr ! i # drop (i + 1) tr"
    using il by (simp add: Cons_nth_drop_Suc)
  have "v4_reset tr i = v4_reset (tr[i := clear (tr ! i)]) (i + 1)"
    using lt by (subst v4_reset.simps) (simp add: clear_def)
  also have "\<dots> = take (i + 1) (tr[i := clear (tr ! i)]) @ map clear (drop (i + 1) (tr[i := clear (tr ! i)]))"
    using Suc.hyps(1) [OF k, of "tr[i := clear (tr ! i)]"] Suc.prems lt by simp
  also have "\<dots> = take i tr @ map clear (drop i tr)"
    using il by (simp add: drop take_Suc_conv_app_nth)
  finally show ?case .
qed

lemma v4_reset_all: "length tr = NUM_READINGS \<Longrightarrow> v4_reset tr 0 = map clear tr"
  using v4_reset_from [of tr 0] by simp

lemma populated_clear: "populated (map clear tr) = []"
  by (induction tr) (simp_all add: populated_def clear_def)

lemma v4_report_due:
  assumes "length (topReadings s) = NUM_READINGS"
      and "reportInterval \<le> clock e (ticks e) - lastReportTime s"
  shows "printed e (fst (v4_report (e, s))) =
     [Text ''----------------------------------------'', Newline] @
     (if length (populated (topReadings s)) = NUM_READINGS
      then [Text ''Time: '', IntVal (uint (clock e (ticks e + 2) div 1000)), Text ''s'', Newline,
            Text ''Averaged Report (from top 5 readings):'', Newline,
            Text ''Average Heart Rate: '',
            FloatVal (real_of_int (sum_list (map bioData.heartRate (populated (topReadings s)))) / real NUM_READINGS) 2,
            Newline,
            Text ''Average SpO2: '',
            FloatVal (real_of_int (sum_list (map bioData.oxygen (populated (topReadings s)))) / real NUM_READINGS) 2,
            Newline]
      else [Text ''Collecting high-confidence data... ('',
            IntVal (int (length (populated (topReadings s)))), Text ''/'',
            IntVal (int NUM_READINGS), Text '' collected)'', Newline]) @
     [Text ''----------------------------------------'', Newline]"
    and "snd (v4_report (e, s)) =
           s\<lparr>topReadings := map clear (topReadings s), lastReportTime := clock e (ticks e + 1)\<rparr>"
  using assms
  by (simp_all add: v4_report_def board_defs printed_def Let_def v4_sum_all v4_reset_all)

lemma v4_report_not_due:
  assumes "\<not> reportInterval \<le> clock e (ticks e) - lastReportTime s"
  shows "printed e (fst (v4_report (e, s))) = []" and "snd (v4_report (e, s)) = s"
  using assms by (simp_all add: v4_report_def board_defs printed_def Let_def)

text \<open>
  C10. In \<^verbatim>\<open>v4.ino\<close>, when a report is due, the averaged heart rate and SpO2 are printed
  exactly when all five slots are populated (confidence above zero). With fewer populated
  slots only the progress message is printed. Either way every slot is cleared, so no
  slot is populated afterwards.
\<close>

theorem v4_average_only_when_full:
  assumes "length (topReadings s) = NUM_READINGS"
      and "reportInterval \<le> clock e (ticks e) - lastReportTime s"
  shows "(Text ''Average Heart Rate: '' \<in> set (printed e (fst (v4_report (e, s)))))
           = (length (populated (topReadings s)) = NUM_READINGS)
       \<and> (Text ''Average SpO2: '' \<in> set (printed e (fst (v4_report (e, s)))))
           = (length (populated (topReadings s)) = NUM_READINGS)
       \<and> (Text ''Collecting high-confidence data... ('' \<in> set (printed e (fst (v4_report (e, s)))))
           = (length (populated (topReadings s)) \<noteq> NUM_READINGS)
       \<and> topReadings (snd (v4_report (e, s))) = map clear (topReadings s)
       \<and> populated (topReadings (snd (v4_report (e, s)))) = []"
  unfolding v4_report_due [OF assms] by (simp add: populated_clear)

theorem v4_average_only_when_full_witness:
  "Text ''Average Heart Rate: '' \<notin> set (printed (steady (slot 0 0) 6000)
        (fst (v4_report (steady (slot 0 0) 6000, partial_window))))
   \<and> Text ''Collecting high-confidence data... ('' \<in> set (printed (steady (slot 0 0) 6000)
        (fst (v4_report (steady (slot 0 0) 6000, partial_window))))
   \<and> populated (topReadings (snd (v4_report (steady (slot 0 0) 6000, partial_window)))) = []"
proof -
  let ?e = "steady (slot 0 0) 6000"
  have len: "length (topReadings partial_window) = NUM_READINGS"
    by (simp add: partial_window_def NUM_READINGS_def)
  have due: "reportInterval \<le> clock ?e (ticks ?e) - lastReportTime partial_window"
    by (simp add: steady_def board_def partial_window_def reportInterval_def)
  have pop: "length (populated (topReadings partial_window)) = 3"
    by (simp add: populated_def partial_window_def slot_def)
  show ?thesis
    using v4_average_only_when_full [OF len due] unfolding pop by (simp add: NUM_READINGS_def populated_clear)
qed

lemma v2_display_result:
  shows "printed e (fst (v2_display (e, s))) =
     (if DISPLAY_INTERVAL \<le> clock e (ticks e) - v2_state.lastDisplayTime s
         \<or> TARGET_READINGS \<le> validReadingsCount s
      then (if 0 < validReadingsCount s
            then [Text ''========================================'', Newline,
                  Text ''AVERAGES ('', IntVal (int (validReadingsCount s)),
                  Text '' valid readings):'', Newline,
                  Text ''Average Heart Rate: '',
                  FloatVal (heartRateSum s / real (validReadingsCount s)) 1, Text '' BPM'', Newline,
                  Text ''Average Blood Oxygen: '',
                  FloatVal (oxygenSum s / real (validReadingsCount s)) 1, Text ''%'', Newline,
                  Text ''Average IR LED counts: '',
                  FloatVal (irLedSum s / real (validReadingsCount s)) 0, Newline,
                  Text ''Average Red LED counts: '',
                  FloatVal (redLedSum s / real (validReadingsCount s)) 0, Newline,
                  Text ''========================================'', Newline]
            else [Text ''No valid readings (confidence > 50) in the last second.'', Newline])
      else [])"
    and "snd (v2_display (e, s)) =
     (if DISPLAY_INTERVAL \<le> clock e (ticks e) - v2_state.lastDisplayTime s
         \<or> TARGET_READINGS \<le> validReadingsCount s
      then s\<lparr>validReadingsCount := 0, heartRateSum := 0, oxygenSum := 0, irLedSum := 0,
              redLedSum := 0, v2_state.lastDisplayTime := clock e (ticks e)\<rparr>
      else s)"
  by (simp_all add: v2_display_def board_defs printed_def Let_def)

lemma v3_report_result:
  shows "printed e (fst (v3_report (e, s))) =
     (if DISPLAY_INTERVAL \<le> clock e (ticks e) - v3_state.lastDisplayTime s \<and> 0 < readingCount s
      then (case v3_averages (sortReadingsByConfidence (readings s) (readingCount s))
                   (min 5 (readingCount s)) of
             (avgHeartRate, avgOxygen, avgConfidence, avgIrLed, avgRedLed) \<Rightarrow>
               [Newline, Text ''=== AVERAGED RESULTS (Top '', IntVal (int (min 5 (readingCount s))),
                Text '' readings) ==='', Newline,
                Text ''Average Heartrate: '', FloatVal avgHeartRate 1, Newline,
                Text ''Average Blood Oxygen: '', FloatVal avgOxygen 1, Newline,
                Text ''Average Confidence: '', FloatVal avgConfidence 1, Newline,
                Text ''Average IR LED: '', IntVal (sint avgIrLed), Newline,
                Text ''Average Red LED: '', IntVal (sint avgRedLed), Newline,
                Text ''Total readings collected: '', IntVal (int (readingCount s)), Newline,
                Text ''================================'', Newline, Newline])
      else [])"
    and "snd (v3_report (e, s)) =
     (if DISPLAY_INTERVAL \<le> clock e (ticks e) - v3_state.lastDisplayTime s \<and> 0 < readingCount s
      then s\<lparr>readings := sortReadingsByConfidence (readings s) (readingCount s),
              readingCount := 0, lastDisplayTime := clock e (ticks e)\<rparr>
      else s)"
  by (simp_all add: v3_report_def board_defs printed_def Let_def split: prod.splits)

lemma v4_report_result:
  assumes "length (topReadings s) = NUM_READINGS"
  shows "(printed e (fst (v4_report (e, s))) \<noteq> []) = (reportInterval \<le> clock e (ticks e) - lastReportTime s)"
    and "snd (v4_report (e, s)) =
           (if reportInterval \<le> clock e (ticks e) - lastReportTime s
            then s\<lparr>topReadings := map clear (topReadings s), lastReportTime := clock e (ticks e + 1)\<rparr>
            else s)"
  using v4_report_due [OF assms, of e] v4_report_not_due [of e s]
  by (cases "reportInterval \<le> clock e (ticks e) - lastReportTime s"; simp)+

text \<open>
  C4, as amended. A report with its reset happens in \<^verbatim>\<open>v4.ino\<close> exactly when the clock is
  at least 1000 ms (modulo \<open>2^32\<close>) past the last report time; in \<^verbatim>\<open>v2.ino\<close> exactly when
  that holds or five readings have been accumulated; in \<^verbatim>\<open>v3.ino\<close> exactly when that holds
  and at least one reading is stored. A report leaves \<^verbatim>\<open>v2.ino\<close> with count and sums at
  zero, \<^verbatim>\<open>v3.ino\<close> with \<^verbatim>\<open>readingCount\<close> at zero (the array sorted), and \<^verbatim>\<open>v4.ino\<close> with
  confidence, heart rate and oxygen of all five slots at zero; the last report time is
  the clock value read for the test (\<^verbatim>\<open>v2.ino\<close>, \<^verbatim>\<open>v3.ino\<close>) or read again (\<^verbatim>\<open>v4.ino\<close>).
  Without a report the state is unchanged and nothing is printed.
\<close>

theorem report_and_reset_when_due:
  assumes "length (topReadings s4) = NUM_READINGS"
  shows "((printed e (fst (v4_report (e, s4))) \<noteq> [])
            = (reportInterval \<le> clock e (ticks e) - lastReportTime s4))
       \<and> snd (v4_report (e, s4)) =
           (if reportInterval \<le> clock e (ticks e) - lastReportTime s4
            then \<lparr>topReadings = map clear (topReadings s4), lastReportTime = clock e (ticks e + 1)\<rparr>
            else s4)
       \<and> ((printed e (fst (v2_display (e, s2))) \<noteq> [])
            = (DISPLAY_INTERVAL \<le> clock e (ticks e) - v2_state.lastDisplayTime s2
               \<or> TARGET_READINGS \<le> validReadingsCount s2))
       \<and> snd (v2_display (e, s2)) =
           (if DISPLAY_INTERVAL \<le> clock e (ticks e) - v2_state.lastDisplayTime s2
               \<or> TARGET_READINGS \<le> validReadingsCount s2
            then \<lparr>validReadingsCount = 0, heartRateSum = 0, oxygenSum = 0, irLedSum = 0,
                   redLedSum = 0, v2_state.lastDisplayTime = clock e (ticks e)\<rparr>
            else s2)
       \<and> ((printed e (fst (v3_report (e, s3))) \<noteq> [])
            = (DISPLAY_INTERVAL \<le> clock e (ticks e) - v3_state.lastDisplayTime s3
               \<and> 0 < readingCount s3))
       \<and> snd (v3_report (e, s3)) =
           (if DISPLAY_INTERVAL \<le> clock e (ticks e) - v3_state.lastDisplayTime s3
               \<and> 0 < readingCount s3
            then \<lparr>readings = sortReadingsByConfidence (readings s3) (readingCount s3),
                   readingCount = 0, lastDisplayTime = clock e (ticks e)\<rparr>
            else s3)"
proof -
  have a: "(printed e (fst (v4_report (e, s4))) \<noteq> [])
            = (reportInterval \<le> clock e (ticks e) - lastReportTime s4)"
    by (rule v4_report_result(1) [OF assms])
  have b: "snd (v4_report (e, s4)) =
           (if reportInterval \<le> clock e (ticks e) - lastReportTime s4
            then \<lparr>topReadings = map clear (topReadings s4), lastReportTime = clock e (ticks e + 1)\<rparr>
            else s4)"
    unfolding v4_report_result(2) [OF assms] by simp
  have c: "(printed e (fst (v2_display (e, s2))) \<noteq> [])
            = (DISPLAY_INTERVAL \<le> clock e (ticks e) - v2_state.lastDisplayTime s2
               \<or> TARGET_READINGS \<le> validReadingsCount s2)"
    unfolding v2_display_result(1) by simp
  have d: "snd (v2_display (e, s2)) =
           (if DISPLAY_INTERVAL \<le> clock e (ticks e) - v2_state.lastDisplayTime s2
               \<or> TARGET_READINGS \<le> validReadingsCount s2
            then \<lparr>validReadingsCount = 0, heartRateSum = 0, oxygenSum = 0, irLedSum = 0,
                   redLedSum = 0, v2_state.lastDisplayTime = clock e (ticks e)\<rparr>
            else s2)"
    unfolding v2_display_result(2) by simp
  have f: "(printed e (fst (v3_report (e, s3))) \<noteq> [])
            = (DISPLAY_INTERVAL \<le> clock e (ticks e) - v3_state.lastDisplayTime s3
               \<and> 0 < readingCount s3)"
    unfolding v3_report_result(1) by (simp split: prod.splits)
  have g: "snd (v3_report (e, s3)) =
           (if DISPLAY_INTERVAL \<le> clock e (ticks e) - v3_state.lastDisplayTime s3
               \<and> 0 < readingCount s3
            then \<lparr>readings = sortReadingsByConfidence (readings s3) (readingCount s3),
                   readingCount = 0, lastDisplayTime = clock e (ticks e)\<rparr>
            else s3)"
    unfolding v3_report_result(2) by simp
  from a b c d f g show ?thesis by blast
qed

lemma v2_loop_unfold:
  "v2_loop (e, s) = v2_display (v2_accumulate (sensor e (reads e)) (e\<lparr>reads := Suc (reads e)\<rparr>, s))"
  by (simp add: v2_loop_def readSensorBpm_def)

lemma v3_loop_unfold:
  "v3_loop (e, s) = v3_report (e\<lparr>reads := Suc (reads e)\<rparr>, v3_store (sensor e (reads e)) s)"
  by (simp add: v3_loop_def readSensorBpm_def)

lemma v4_loop_unfold:
  "v4_loop (e, s) = v4_report (e\<lparr>reads := Suc (reads e)\<rparr>,
       s\<lparr>topReadings := v4_insert (sensor e (reads e)) (topReadings s)\<rparr>)"
  by (simp add: v4_loop_def readSensorBpm_def)

text \<open>
  C4 as first stated fails in both directions. In \<^verbatim>\<open>v2.ino\<close> a fifth accepted reading
  triggers the report 100 ms after the previous one; in \<^verbatim>\<open>v3.ino\<close> no report is made
  2000 ms after the previous one while no reading is stored.
\<close>

theorem report_before_interval_counterexample:
  "clock (steady (slot 60 70) 5100) 0 - v2_state.lastDisplayTime four_valid < DISPLAY_INTERVAL
   \<and> Text ''AVERAGES ('' \<in> set (printed (steady (slot 60 70) 5100)
         (fst (v2_loop (steady (slot 60 70) 5100, four_valid))))
   \<and> validReadingsCount (snd (v2_loop (steady (slot 60 70) 5100, four_valid))) = 0
   \<and> DISPLAY_INTERVAL \<le> clock (steady (slot 40 70) 7000) 0 - v3_state.lastDisplayTime empty_v3
   \<and> printed (steady (slot 40 70) 7000)
         (fst (v3_loop (steady (slot 40 70) 7000, empty_v3))) = []
   \<and> snd (v3_loop (steady (slot 40 70) 7000, empty_v3)) = empty_v3"
  by (simp add: v2_loop_unfold v3_loop_unfold v2_accumulate_def v2_display_def v3_store_def v3_report_def
      board_defs printed_def steady_def board_def slot_def four_valid_def empty_v3_def
      DISPLAY_INTERVAL_def TARGET_READINGS_def Let_def)

theorem report_and_reset_when_due_witness:
  "printed (steady (slot 0 0) 6000)
       (fst (v4_report (steady (slot 0 0) 6000, partial_window))) \<noteq> []
   \<and> snd (v4_report (steady (slot 0 0) 6000, partial_window))
       = \<lparr>topReadings = map clear (topReadings partial_window), lastReportTime = 6000\<rparr>
   \<and> printed (steady (slot 0 0) 5100)
       (fst (v2_display (steady (slot 0 0) 5100, four_valid))) = []
   \<and> snd (v2_display (steady (slot 0 0) 5100, four_valid)) = four_valid"
proof -
  let ?e = "steady (slot 0 0) 6000"
  let ?e' = "steady (slot 0 0) 5100"
  have len: "length (topReadings partial_window) = NUM_READINGS"
    by (simp add: partial_window_def NUM_READINGS_def)
  have due: "reportInterval \<le> clock ?e (ticks ?e) - lastReportTime partial_window"
    by (simp add: steady_def board_def partial_window_def reportInterval_def)
  have early: "\<not> (DISPLAY_INTERVAL \<le> clock ?e' (ticks ?e') - v2_state.lastDisplayTime four_valid
                  \<or> TARGET_READINGS \<le> validReadingsCount four_valid)"
    by (simp add: steady_def board_def four_valid_def DISPLAY_INTERVAL_def TARGET_READINGS_def)
  have now: "clock ?e (ticks ?e + 1) = 6000" by (simp add: steady_def board_def)
  have a: "printed ?e (fst (v4_report (?e, partial_window))) \<noteq> []
      \<and> snd (v4_report (?e, partial_window))
          = \<lparr>topReadings = map clear (topReadings partial_window), lastReportTime = 6000\<rparr>"
    using report_and_reset_when_due [OF len, where e = ?e and ?s2.0 = four_valid and ?s3.0 = empty_v3]
    unfolding if_P [OF due] now using due by blast
  have b: "printed ?e' (fst (v2_display (?e', four_valid))) = []
      \<and> snd (v2_display (?e', four_valid)) = four_valid"
    using report_and_reset_when_due [OF len, where e = ?e' and ?s2.0 = four_valid and ?s3.0 = empty_v3]
    unfolding if_not_P [OF early] using early by blast
  from a b show ?thesis by blast
qed

section \<open>Which readings are accepted\<close>

lemma v2_accumulate_count:
  "validReadingsCount (snd (v2_accumulate body (e, s))) =
     validReadingsCount s +
       (if 50 < bioData.confidence body \<and> 0 < bioData.heartRate body \<and> 0 < bioData.oxygen body
        then 1 else 0)"
  by (simp add: v2_accumulate_def Let_def)

lemma v2_accumulate_rejected:
  "\<not> (50 < bioData.confidence body \<and> 0 < bioData.heartRate body \<and> 0 < bioData.oxygen body)
   \<Longrightarrow> snd (v2_accumulate body (e, s)) = s"
  by (auto simp: v2_accumulate_def Let_def)

lemma v2_accumulate_changes:
  "(snd (v2_accumulate body (e, s)) \<noteq> s) =
     (50 < bioData.confidence body \<and> 0 < bioData.heartRate body \<and> 0 < bioData.oxygen body)"
proof (cases "50 < bioData.confidence body \<and> 0 < bioData.heartRate body \<and> 0 < bioData.oxygen body")
  case True
  then have "validReadingsCount (snd (v2_accumulate body (e, s))) \<noteq> validReadingsCount s"
    unfolding v2_accumulate_count by simp
  then have "snd (v2_accumulate body (e, s)) \<noteq> s" by auto
  with True show ?thesis by simp
next
  case False
  with v2_accumulate_rejected [OF False] show ?thesis by simp
qed

lemma v3_store_changes:
  "(v3_store body s \<noteq> s) = (50 < bioData.confidence body \<and> readingCount s < MAX_READINGS)"
proof (cases "50 < bioData.confidence body \<and> readingCount s < MAX_READINGS")
  case True
  then have "readingCount (v3_store body s) \<noteq> readingCount s"
    by (simp add: v3_store_def)
  then have "v3_store body s \<noteq> s" by auto
  with True show ?thesis by simp
next
  case False
  then show ?thesis by (auto simp: v3_store_def)
qed

lemma v4_insert_changes:
  assumes "length tr = NUM_READINGS"
  shows "(v4_insert body tr \<noteq> tr) =
     (50 < bioData.confidence body \<and> Min (set (map bioData.confidence tr)) < bioData.confidence body)"
proof (cases "50 < bioData.confidence body \<and> Min (set (map bioData.confidence tr)) < bioData.confidence body")
  case True
  let ?m = "v4_findMin tr 1 0"
  have m: "?m < length tr" and least: "bioData.confidence (tr ! ?m) = Min (set (map bioData.confidence tr))"
    using v4_findMin_is_Min [OF assms] assms by simp_all
  have "v4_insert body tr = tr[?m := body]"
    using True least by (simp add: v4_insert_def Let_def)
  moreover have "(tr[?m := body]) ! ?m \<noteq> tr ! ?m"
    using m True least by auto
  ultimately have "v4_insert body tr \<noteq> tr" by metis
  with True show ?thesis by simp
next
  case False
  then show ?thesis
    using v4_findMin_is_Min(2) [OF assms] by (auto simp: v4_insert_def Let_def)
qed

text \<open>
  C5, as amended. A reading whose confidence is at most 50 changes nothing in any of the
  three sketches. A reading whose confidence is above 50 changes the averaging state in
  \<^verbatim>\<open>v2.ino\<close> exactly when its heart rate and oxygen are also above zero, in \<^verbatim>\<open>v3.ino\<close>
  exactly when fewer than \<^verbatim>\<open>MAX_READINGS\<close> readings are stored, and in \<^verbatim>\<open>v4.ino\<close> exactly
  when its confidence is above the least confidence of the five slots.
\<close>

theorem acceptance_conditions:
  assumes "length tr = NUM_READINGS"
  shows "(bioData.confidence body \<le> 50 \<longrightarrow>
            snd (v2_accumulate body (e, s2)) = s2 \<and> v3_store body s3 = s3 \<and> v4_insert body tr = tr)
       \<and> (snd (v2_accumulate body (e, s2)) \<noteq> s2) =
            (50 < bioData.confidence body \<and> 0 < bioData.heartRate body \<and> 0 < bioData.oxygen body)
       \<and> (v3_store body s3 \<noteq> s3) = (50 < bioData.confidence body \<and> readingCount s3 < MAX_READINGS)
       \<and> (v4_insert body tr \<noteq> tr) =
            (50 < bioData.confidence body \<and> Min (set (map bioData.confidence tr)) < bioData.confidence body)"
  using v2_accumulate_changes [of body e s2] v3_store_changes [of body s3]
    v4_insert_changes [OF assms, of body]
  by auto

text \<open>
  C5 as first stated fails in \<^verbatim>\<open>v2.ino\<close>: a reading with confidence 60 and heart rate 0
  is rejected.
\<close>

theorem confident_reading_rejected_counterexample:
  "50 < bioData.confidence (slot 60 0)
   \<and> snd (v2_accumulate (slot 60 0) (steady (slot 60 0) 5100, four_valid)) = four_valid"
  by (simp add: v2_accumulate_def slot_def Let_def)

theorem acceptance_conditions_witness:
  "v4_insert (slot 50 75) [slot 60 70, slot 0 0, slot 90 72, slot 0 0, slot 80 74]
     = [slot 60 70, slot 0 0, slot 90 72, slot 0 0, slot 80 74]
   \<and> snd (v2_accumulate (slot 50 75) (steady (slot 0 0) 5100, four_valid)) = four_valid
   \<and> v3_store (slot 50 75) empty_v3 = empty_v3"
proof -
  let ?tr = "[slot 60 70, slot 0 0, slot 90 72, slot 0 0, slot 80 74]"
  have len: "length ?tr = NUM_READINGS" by (simp add: NUM_READINGS_def)
  have low: "bioData.confidence (slot 50 75) \<le> 50" by (simp add: slot_def)
  show ?thesis
    using acceptance_conditions [OF len, of "slot 50 75" "steady (slot 0 0) 5100" four_valid empty_v3] low
    by blast
qed

section \<open>What \<^verbatim>\<open>setup\<close> prints and calls\<close>

lemma emit_fields [simp]:
  "serial (emit xs e) = serial e @ xs" "calls (emit xs e) = calls e" "hub (emit xs e) = hub e"
  "reads (emit xs e) = reads e" "ticks (emit xs e) = ticks e" "sensor (emit xs e) = sensor e"
  "clock (emit xs e) = clock e"
  by (simp_all add: emit_def)

lemma bioHub_fields [simp]:
  "fst (bioHub c e) = hub e c"
  "serial (snd (bioHub c e)) = serial e" "calls (snd (bioHub c e)) = calls e @ [c]"
  "hub (snd (bioHub c e)) = hub e" "reads (snd (bioHub c e)) = reads e"
  "ticks (snd (bioHub c e)) = ticks e" "sensor (snd (bioHub c e)) = sensor e"
  "clock (snd (bioHub c e)) = clock e"
  by (simp_all add: bioHub_def)

lemma millis_fields [simp]:
  "fst (millis e) = clock e (ticks e)"
  "serial (snd (millis e)) = serial e" "calls (snd (millis e)) = calls e"
  "hub (snd (millis e)) = hub e" "reads (snd (millis e)) = reads e"
  "ticks (snd (millis e)) = Suc (ticks e)" "sensor (snd (millis e)) = sensor e"
  "clock (snd (millis e)) = clock e"
  by (simp_all add: millis_def)

lemma readSensorBpm_fields [simp]:
  "fst (readSensorBpm e) = sensor e (reads e)"
  "serial (snd (readSensorBpm e)) = serial e" "calls (snd (readSensorBpm e)) = calls e"
  "hub (snd (readSensorBpm e)) = hub e" "reads (snd (readSensorBpm e)) = Suc (reads e)"
  "ticks (snd (readSensorBpm e)) = ticks e" "sensor (snd (readSensorBpm e)) = sensor e"
  "clock (snd (readSensorBpm e)) = clock e"
  by (simp_all add: readSensorBpm_def)

lemma if_env_fields:
  "serial (if b then e1 else e2) = (if b then serial e1 else serial e2)"
  "calls (if b then e1 else e2) = (if b then calls e1 else calls e2)"
  "hub (if b then e1 else e2) = (if b then hub e1 else hub e2)"
  by simp_all

lemma setup_config_hub: "hub (setup_config e) = hub e"
  by (simp add: setup_config_def Let_def case_prod_beta if_env_fields)

lemma setup_config_calls:
  "calls (setup_config e) =
     calls e @ [Begin, ConfigSensorBpm MODE_ONE, SetPulseWidth width, ReadPulseWidth,
                SetSampleRate samples, ReadSampleRate]"
  by (simp add: setup_config_def Let_def case_prod_beta if_env_fields)

lemma setup_config_serial:
  "serial (setup_config e) = serial e @
     (if hub e Begin = 0 then [Text ''Sensor started!'', Newline] else []) @
     [Text ''Configuring Sensor....'', Newline] @
     (if hub e (ConfigSensorBpm MODE_ONE) = 0 then [Text ''Sensor configured.'', Newline]
      else [Text ''Error configuring sensor.'', Newline,
            Text ''Error: '', IntVal (hub e (ConfigSensorBpm MODE_ONE)), Newline]) @
     (if hub e (SetPulseWidth width) = 0 then [Text ''Pulse Width Set.'', Newline]
      else [Text ''Could not set Pulse Width.'', Newline,
            Text ''Error: '', IntVal (hub e (SetPulseWidth width)), Newline]) @
     [Text ''Pulse Width: '', IntVal (hub e ReadPulseWidth), Newline] @
     (if hub e (SetSampleRate samples) = 0 then [Text ''Sample Rate Set.'', Newline]
      else [Text ''Could not set Sample Rate!'', Newline,
            Text ''Error: '', IntVal (hub e (SetSampleRate samples)), Newline]) @
     [Text ''Sample rate is set to: '', IntVal (hub e ReadSampleRate), Newline]"
  by (cases "hub e Begin = 0"; cases "hub e (ConfigSensorBpm MODE_ONE) = 0";
      cases "hub e (SetPulseWidth width) = 0"; cases "hub e (SetSampleRate samples) = 0")
     (simp_all add: setup_config_def Let_def case_prod_beta)

lemma printed_append: "serial e' = serial e @ xs \<Longrightarrow> printed e e' = xs"
  by (simp add: printed_def)

lemmas setup_config_printed = printed_append [OF setup_config_serial]

lemma v2_stabilize_keeps:
  "calls (v2_stabilize i e) = calls e \<and> (\<exists>xs. serial (v2_stabilize i e) = serial e @ xs)"
proof (induction "20 - i" arbitrary: i e)
  case 0
  then show ?case by (subst (1 2) v2_stabilize.simps) simp
next
  case (Suc k)
  then have lt: "i < 20" and k: "k = 20 - (i + 1)" by simp_all
  have step: "v2_stabilize i e = v2_stabilize (i + 1) (v2_stabilize_body e)"
    using lt by (subst v2_stabilize.simps) simp
  have body: "calls (v2_stabilize_body e) = calls e"
    "\<exists>ys. serial (v2_stabilize_body e) = serial e @ ys"
    by (simp_all add: v2_stabilize_body_def case_prod_beta)
  from Suc.hyps(1) [OF k, of "v2_stabilize_body e"] body show ?case
    unfolding step by auto
qed

lemma v2_setup_trace:
  shows "calls (fst (v2_setup e)) = calls (setup_config e)"
    and "\<exists>xs. printed e (fst (v2_setup e)) = printed e (setup_config e) @ xs"
proof -
  let ?e1 = "emit [Text ''Allowing sensor to stabilize...'', Newline]
              (emit [Text ''Loading up the buffer with data....'', Newline] (setup_config e))"
  obtain xs where xs: "serial (v2_stabilize 0 ?e1) = serial ?e1 @ xs"
    using v2_stabilize_keeps [of 0 ?e1] by blast
  have c: "calls (v2_stabilize 0 ?e1) = calls (setup_config e)"
    using v2_stabilize_keeps [of 0 ?e1] by simp
  show "calls (fst (v2_setup e)) = calls (setup_config e)"
    using c by (simp add: v2_setup_def Let_def case_prod_beta)
  obtain ps where ps: "serial (setup_config e) = serial e @ ps"
    using setup_config_serial [of e] by blast
  have "\<exists>ys. serial (fst (v2_setup e)) = serial e @ ps @ ys"
    using xs ps by (simp add: v2_setup_def Let_def case_prod_beta)
  then show "\<exists>xs. printed e (fst (v2_setup e)) = printed e (setup_config e) @ xs"
    using ps by (auto simp: printed_def)
qed

lemma v3_setup_trace:
  shows "calls (fst (v3_setup e)) = calls (setup_config e)"
    and "printed e (fst (v3_setup e)) =
     printed e (setup_config e) @ [Text ''Loading up the buffer with data....'', Newline]"
proof -
  obtain ps where ps: "serial (setup_config e) = serial e @ ps"
    using setup_config_serial [of e] by blast
  show "calls (fst (v3_setup e)) = calls (setup_config e)"
    by (simp add: v3_setup_def Let_def case_prod_beta)
  show "printed e (fst (v3_setup e)) =
     printed e (setup_config e) @ [Text ''Loading up the buffer with data....'', Newline]"
    using ps by (simp add: v3_setup_def Let_def case_prod_beta printed_def)
qed

lemma v4_setup_trace:
  shows "calls (fst (v4_setup e)) = calls (setup_config e)"
    and "printed e (fst (v4_setup e)) =
     printed e (setup_config e) @
     [Newline, Text ''Now collecting data. Averaged report will be displayed every second.'', Newline,
      Text ''Make sure your finger is placed firmly on the sensor.'', Newline]"
proof -
  obtain ps where ps: "serial (setup_config e) = serial e @ ps"
    using setup_config_serial [of e] by blast
  show "calls (fst (v4_setup e)) = calls (setup_config e)"
    by (simp add: v4_setup_def Let_def case_prod_beta)
  show "printed e (fst (v4_setup e)) =
     printed e (setup_config e) @
     [Newline, Text ''Now collecting data. Averaged report will be displayed every second.'', Newline,
      Text ''Make sure your finger is placed firmly on the sensor.'', Newline]"
    using ps by (simp add: v4_setup_def Let_def case_prod_beta printed_def)
qed

lemma setup_config_reports_code:
  assumes "c \<in> {ConfigSensorBpm MODE_ONE, SetPulseWidth width, SetSampleRate samples}"
      and "hub e c \<noteq> 0"
  shows "IntVal (hub e c) \<in> set (printed e (setup_config e))"
  using assms unfolding setup_config_printed by auto

lemma setup_config_begin_silent:
  assumes "hub e Begin \<noteq> 0" and "c \<noteq> 0"
  shows "printed (e\<lparr>hub := (hub e)(Begin := c)\<rparr>) (setup_config (e\<lparr>hub := (hub e)(Begin := c)\<rparr>))
           = printed e (setup_config e)"
  using assms unfolding setup_config_printed by simp

text \<open>
  C6, as amended. In each of the three sketches a non-zero code returned by
  \<^verbatim>\<open>configSensorBpm\<close>, \<^verbatim>\<open>setPulseWidth\<close> or \<^verbatim>\<open>setSampleRate\<close> is printed. A non-zero code
  returned by \<^verbatim>\<open>begin\<close> is not: what \<^verbatim>\<open>setup\<close> prints is the same for every non-zero value of
  it. Whatever the codes are, \<^verbatim>\<open>setup\<close> makes the same six hub calls, each once and in the
  same order.
\<close>

theorem setup_reports_codes_and_continues:
  "(c \<in> {ConfigSensorBpm MODE_ONE, SetPulseWidth width, SetSampleRate samples} \<and> hub e c \<noteq> 0 \<longrightarrow>
      IntVal (hub e c) \<in> set (printed e (fst (v2_setup e)))
    \<and> IntVal (hub e c) \<in> set (printed e (fst (v3_setup e)))
    \<and> IntVal (hub e c) \<in> set (printed e (fst (v4_setup e))))
   \<and> (hub e Begin \<noteq> 0 \<and> b \<noteq> 0 \<longrightarrow>
      printed (e\<lparr>hub := (hub e)(Begin := b)\<rparr>) (setup_config (e\<lparr>hub := (hub e)(Begin := b)\<rparr>))
        = printed e (setup_config e))
   \<and> calls (fst (v2_setup e)) = calls e @ [Begin, ConfigSensorBpm MODE_ONE, SetPulseWidth width,
         ReadPulseWidth, SetSampleRate samples, ReadSampleRate]
   \<and> calls (fst (v3_setup e)) = calls e @ [Begin, ConfigSensorBpm MODE_ONE, SetPulseWidth width,
         ReadPulseWidth, SetSampleRate samples, ReadSampleRate]
   \<and> calls (fst (v4_setup e)) = calls e @ [Begin, ConfigSensorBpm MODE_ONE, SetPulseWidth width,
         ReadPulseWidth, SetSampleRate samples, ReadSampleRate]"
proof -
  obtain xs where xs: "printed e (fst (v2_setup e)) = printed e (setup_config e) @ xs"
    using v2_setup_trace(2) by blast
  have codes: "IntVal (hub e c) \<in> set (printed e (fst (v2_setup e)))
    \<and> IntVal (hub e c) \<in> set (printed e (fst (v3_setup e)))
    \<and> IntVal (hub e c) \<in> set (printed e (fst (v4_setup e)))"
    if "c \<in> {ConfigSensorBpm MODE_ONE, SetPulseWidth width, SetSampleRate samples}" "hub e c \<noteq> 0"
    using setup_config_reports_code [OF that] unfolding xs v3_setup_trace(2) v4_setup_trace(2)
    by simp
  have silent: "printed (e\<lparr>hub := (hub e)(Begin := b)\<rparr>) (setup_config (e\<lparr>hub := (hub e)(Begin := b)\<rparr>))
        = printed e (setup_config e)" if "hub e Begin \<noteq> 0" "b \<noteq> 0"
    by (rule setup_config_begin_silent [OF that])
  show ?thesis
    using codes silent
    unfolding v2_setup_trace(1) v3_setup_trace(1) v4_setup_trace(1) setup_config_calls
    by blast
qed

text \<open>
  C6 as first stated fails for \<^verbatim>\<open>begin\<close>: when it returns 7 and every other call succeeds,
  no sketch prints 7.
\<close>

theorem begin_code_not_printed_counterexample:
  "hub failing_begin Begin = 7
   \<and> IntVal 7 \<notin> set (printed failing_begin (fst (v3_setup failing_begin)))
   \<and> IntVal 7 \<notin> set (printed failing_begin (fst (v4_setup failing_begin)))"
  unfolding v3_setup_trace(2) v4_setup_trace(2) setup_config_printed
  by (simp add: failing_begin_def width_def samples_def)

theorem setup_reports_codes_and_continues_witness:
  "IntVal 4 \<in> set (printed failing_config (fst (v2_setup failing_config)))
   \<and> IntVal 4 \<in> set (printed failing_config (fst (v3_setup failing_config)))
   \<and> IntVal 4 \<in> set (printed failing_config (fst (v4_setup failing_config)))
   \<and> calls (fst (v4_setup failing_config)) = [Begin, ConfigSensorBpm MODE_ONE, SetPulseWidth width,
         ReadPulseWidth, SetSampleRate samples, ReadSampleRate]"
proof -
  have c: "ConfigSensorBpm MODE_ONE \<in> {ConfigSensorBpm MODE_ONE, SetPulseWidth width, SetSampleRate samples}"
    by simp
  have h: "hub failing_config (ConfigSensorBpm MODE_ONE) = 4" "calls failing_config = []"
    by (simp_all add: failing_config_def)
  have n: "hub failing_config (ConfigSensorBpm MODE_ONE) \<noteq> 0" unfolding h by simp
  show ?thesis
    using setup_reports_codes_and_continues [of "ConfigSensorBpm MODE_ONE" failing_config 1] c n
    unfolding h by simp
qed

section \<open>One reading per iteration\<close>

lemma v2_display_fields:
  shows "reads (fst (v2_display (e, s))) = reads e"
    and "serial (fst (v2_display (e, s))) = serial e @ printed e (fst (v2_display (e, s)))"
  by (simp_all add: v2_display_def Let_def case_prod_beta printed_def)

lemma v3_report_fields:
  shows "reads (fst (v3_report (e, s))) = reads e"
    and "serial (fst (v3_report (e, s))) = serial e @ printed e (fst (v3_report (e, s)))"
  by (simp_all add: v3_report_def Let_def case_prod_beta printed_def)

lemma v4_report_fields:
  shows "reads (fst (v4_report (e, s))) = reads e"
    and "serial (fst (v4_report (e, s))) = serial e @ printed e (fst (v4_report (e, s)))"
  by (simp_all add: v4_report_def Let_def case_prod_beta printed_def)

lemma v2_accumulate_fields:
  shows "reads (fst (v2_accumulate body (e, s))) = reads e"
    and "ticks (fst (v2_accumulate body (e, s))) = ticks e"
    and "clock (fst (v2_accumulate body (e, s))) = clock e"
  by (simp_all add: v2_accumulate_def Let_def)

lemma v2_loop_reads: "reads (fst (v2_loop es)) = Suc (reads (fst es))"
proof -
  obtain e s where es: "es = (e, s)" by (cases es)
  obtain e' s' where acc: "v2_accumulate (sensor e (reads e)) (e\<lparr>reads := Suc (reads e)\<rparr>, s) = (e', s')"
    by (cases "v2_accumulate (sensor e (reads e)) (e\<lparr>reads := Suc (reads e)\<rparr>, s)")
  have "reads e' = Suc (reads e)"
    using v2_accumulate_fields(1) [of "sensor e (reads e)" "e\<lparr>reads := Suc (reads e)\<rparr>" s] acc by simp
  then show ?thesis
    unfolding es v2_loop_unfold acc v2_display_fields by simp
qed

lemma v3_loop_reads: "reads (fst (v3_loop es)) = Suc (reads (fst es))"
  by (cases es) (simp add: v3_loop_unfold v3_report_fields)

lemma v4_loop_reads: "reads (fst (v4_loop es)) = Suc (reads (fst es))"
  by (cases es) (simp add: v4_loop_unfold v4_report_fields)

lemma v2_run_reads: "reads (fst ((v2_loop ^^ n) es)) = reads (fst es) + n"
  by (induction n) (simp_all add: v2_loop_reads)

lemma v3_run_reads: "reads (fst ((v3_loop ^^ n) es)) = reads (fst es) + n"
  by (induction n) (simp_all add: v3_loop_reads)

lemma v4_run_reads: "reads (fst ((v4_loop ^^ n) es)) = reads (fst es) + n"
  by (induction n) (simp_all add: v4_loop_reads)

lemma v2_accumulate_cong:
  assumes "serial e' = serial e" and "ticks e' = ticks e" and "clock e' = clock e"
  shows "snd (v2_accumulate body (e', s)) = snd (v2_accumulate body (e, s))"
    and "serial (fst (v2_accumulate body (e', s))) = serial (fst (v2_accumulate body (e, s)))"
    and "ticks (fst (v2_accumulate body (e', s))) = ticks (fst (v2_accumulate body (e, s)))"
    and "clock (fst (v2_accumulate body (e', s))) = clock (fst (v2_accumulate body (e, s)))"
  using assms by (simp_all add: v2_accumulate_def Let_def)

lemma v2_display_cong:
  assumes "serial e' = serial e" and "ticks e' = ticks e" and "clock e' = clock e"
  shows "snd (v2_display (e', s)) = snd (v2_display (e, s))"
    and "serial (fst (v2_display (e', s))) = serial (fst (v2_display (e, s)))"
  unfolding v2_display_fields(2) v2_display_result using assms by simp_all

lemma v3_report_cong:
  assumes "serial e' = serial e" and "ticks e' = ticks e" and "clock e' = clock e"
  shows "snd (v3_report (e', s)) = snd (v3_report (e, s))"
    and "serial (fst (v3_report (e', s))) = serial (fst (v3_report (e, s)))"
  unfolding v3_report_fields(2) v3_report_result using assms by simp_all

lemma v4_report_printed:
  "printed e (fst (v4_report (e, s))) =
     (if reportInterval \<le> clock e (ticks e) - lastReportTime s
      then [Text ''----------------------------------------'', Newline] @
        (case v4_sum (topReadings s) 0 (0, 0, 0) of
          (totalHeartRate, totalOxygen, validCount) \<Rightarrow>
            if validCount = NUM_READINGS
            then [Text ''Time: '', IntVal (uint (clock e (ticks e + 2) div 1000)), Text ''s'', Newline,
                  Text ''Averaged Report (from top 5 readings):'', Newline,
                  Text ''Average Heart Rate: '', FloatVal (totalHeartRate / real NUM_READINGS) 2, Newline,
                  Text ''Average SpO2: '', FloatVal (totalOxygen / real NUM_READINGS) 2, Newline]
            else [Text ''Collecting high-confidence data... ('',
                  IntVal (int validCount), Text ''/'',
                  IntVal (int NUM_READINGS), Text '' collected)'', Newline]) @
        [Text ''----------------------------------------'', Newline]
      else [])"
  by (simp add: v4_report_def Let_def case_prod_beta printed_def)

lemma v4_report_state:
  "snd (v4_report (e, s)) =
     (if reportInterval \<le> clock e (ticks e) - lastReportTime s
      then s\<lparr>topReadings := v4_reset (topReadings s) 0, lastReportTime := clock e (ticks e + 1)\<rparr>
      else s)"
  by (simp add: v4_report_def Let_def case_prod_beta)

lemma v4_report_cong:
  assumes "serial e' = serial e" and "ticks e' = ticks e" and "clock e' = clock e"
  shows "snd (v4_report (e', s)) = snd (v4_report (e, s))"
    and "serial (fst (v4_report (e', s))) = serial (fst (v4_report (e, s)))"
  unfolding v4_report_fields(2) v4_report_printed v4_report_state using assms
  by (simp_all split: prod.splits)

lemma v2_loop_other_readings:
  assumes "f (reads e) = sensor e (reads e)"
  shows "snd (v2_loop (e\<lparr>sensor := f\<rparr>, s)) = snd (v2_loop (e, s))"
    and "serial (fst (v2_loop (e\<lparr>sensor := f\<rparr>, s))) = serial (fst (v2_loop (e, s)))"
proof -
  let ?b = "sensor e (reads e)"
  let ?e1 = "e\<lparr>reads := Suc (reads e)\<rparr>"
  let ?e2 = "e\<lparr>sensor := f, reads := Suc (reads e)\<rparr>"
  obtain ea sa where a: "v2_accumulate ?b (?e1, s) = (ea, sa)"
    by (cases "v2_accumulate ?b (?e1, s)")
  obtain eb sb where b: "v2_accumulate ?b (?e2, s) = (eb, sb)"
    by (cases "v2_accumulate ?b (?e2, s)")
  have same: "sb = sa" "serial eb = serial ea" "ticks eb = ticks ea" "clock eb = clock ea"
    using v2_accumulate_cong [of ?e2 ?e1 ?b s] a b by simp_all
  have l: "v2_loop (e\<lparr>sensor := f\<rparr>, s) = v2_display (eb, sb)"
    using assms b by (simp add: v2_loop_unfold)
  have r: "v2_loop (e, s) = v2_display (ea, sa)"
    using a by (simp add: v2_loop_unfold)
  show "snd (v2_loop (e\<lparr>sensor := f\<rparr>, s)) = snd (v2_loop (e, s))"
    unfolding l r same(1) by (rule v2_display_cong(1) [OF same(2-4)])
  show "serial (fst (v2_loop (e\<lparr>sensor := f\<rparr>, s))) = serial (fst (v2_loop (e, s)))"
    unfolding l r same(1) by (rule v2_display_cong(2) [OF same(2-4)])
qed

lemma v3_loop_other_readings:
  assumes "f (reads e) = sensor e (reads e)"
  shows "snd (v3_loop (e\<lparr>sensor := f\<rparr>, s)) = snd (v3_loop (e, s))"
    and "serial (fst (v3_loop (e\<lparr>sensor := f\<rparr>, s))) = serial (fst (v3_loop (e, s)))"
proof -
  let ?e1 = "e\<lparr>reads := Suc (reads e)\<rparr>"
  let ?e2 = "e\<lparr>sensor := f, reads := Suc (reads e)\<rparr>"
  have same: "serial ?e2 = serial ?e1" "ticks ?e2 = ticks ?e1" "clock ?e2 = clock ?e1" by simp_all
  have l: "v3_loop (e\<lparr>sensor := f\<rparr>, s) = v3_report (?e2, v3_store (sensor e (reads e)) s)"
    using assms by (simp add: v3_loop_unfold)
  have r: "v3_loop (e, s) = v3_report (?e1, v3_store (sensor e (reads e)) s)"
    by (rule v3_loop_unfold)
  show "snd (v3_loop (e\<lparr>sensor := f\<rparr>, s)) = snd (v3_loop (e, s))"
    unfolding l r by (rule v3_report_cong(1) [OF same])
  show "serial (fst (v3_loop (e\<lparr>sensor := f\<rparr>, s))) = serial (fst (v3_loop (e, s)))"
    unfolding l r by (rule v3_report_cong(2) [OF same])
qed

lemma v4_loop_other_readings:
  assumes "f (reads e) = sensor e (reads e)"
  shows "snd (v4_loop (e\<lparr>sensor := f\<rparr>, s)) = snd (v4_loop (e, s))"
    and "serial (fst (v4_loop (e\<lparr>sensor := f\<rparr>, s))) = serial (fst (v4_loop (e, s)))"
proof -
  let ?e1 = "e\<lparr>reads := Suc (reads e)\<rparr>"
  let ?e2 = "e\<lparr>sensor := f, reads := Suc (reads e)\<rparr>"
  have same: "serial ?e2 = serial ?e1" "ticks ?e2 = ticks ?e1" "clock ?e2 = clock ?e1" by simp_all
  have l: "v4_loop (e\<lparr>sensor := f\<rparr>, s) =
      v4_report (?e2, s\<lparr>topReadings := v4_insert (sensor e (reads e)) (topReadings s)\<rparr>)"
    using assms by (simp add: v4_loop_unfold)
  have r: "v4_loop (e, s) =
      v4_report (?e1, s\<lparr>topReadings := v4_insert (sensor e (reads e)) (topReadings s)\<rparr>)"
    by (rule v4_loop_unfold)
  show "snd (v4_loop (e\<lparr>sensor := f\<rparr>, s)) = snd (v4_loop (e, s))"
    unfolding l r by (rule v4_report_cong(1) [OF same])
  show "serial (fst (v4_loop (e\<lparr>sensor := f\<rparr>, s))) = serial (fst (v4_loop (e, s)))"
    unfolding l r by (rule v4_report_cong(2) [OF same])
qed

lemma setup_config_world:
  shows "reads (setup_config e) = reads e"
    and "ticks (setup_config e) = ticks e"
    and "clock (setup_config e) = clock e"
  by (cases "hub e Begin = 0"; cases "hub e (ConfigSensorBpm MODE_ONE) = 0";
      cases "hub e (SetPulseWidth width) = 0"; cases "hub e (SetSampleRate samples) = 0";
      simp add: setup_config_def Let_def case_prod_beta)+

lemma v2_stabilize_world:
  "i \<le> 20 \<Longrightarrow>
   reads (v2_stabilize i e) = reads e + (20 - i)
   \<and> ticks (v2_stabilize i e) = ticks e \<and> clock (v2_stabilize i e) = clock e"
proof (induction "20 - i" arbitrary: i e)
  case 0
  then show ?case by (subst (1 2 3) v2_stabilize.simps) simp
next
  case (Suc k)
  then have lt: "i < 20" and k: "k = 20 - (i + 1)" by simp_all
  have step: "v2_stabilize i e = v2_stabilize (i + 1) (v2_stabilize_body e)"
    using lt by (subst v2_stabilize.simps) simp
  have body: "reads (v2_stabilize_body e) = Suc (reads e)"
    "ticks (v2_stabilize_body e) = ticks e" "clock (v2_stabilize_body e) = clock e"
    by (simp_all add: v2_stabilize_body_def case_prod_beta)
  from Suc.hyps(1) [OF k, of "v2_stabilize_body e"] lt show ?case
    unfolding step body by simp
qed

lemma v2_setup_reads:
  shows "reads (fst (v2_setup e)) = reads e + 20"
    and "snd (v2_setup e) = v2_empty (clock e (ticks e))"
  using v2_stabilize_world [of 0 "emit [Text ''Allowing sensor to stabilize...'', Newline]
              (emit [Text ''Loading up the buffer with data....'', Newline] (setup_config e))"]
  by (simp_all add: v2_setup_def Let_def case_prod_beta setup_config_world v2_empty_def)

lemma v3_setup_reads: "reads (fst (v3_setup e)) = reads e"
  by (simp add: v3_setup_def Let_def case_prod_beta setup_config_world)

lemma v4_setup_reads: "reads (fst (v4_setup e)) = reads e"
  by (simp add: v4_setup_def Let_def case_prod_beta setup_config_world)

text \<open>
  C7, as amended. An iteration of \<^verbatim>\<open>loop\<close> calls \<^verbatim>\<open>readSensorBpm\<close> exactly once, in each
  sketch: the number of calls grows by one per iteration, so \<open>n\<close> iterations consume \<open>n\<close>
  successive records, each once. What the iteration stores and prints depends on no
  record but the one it read: replacing every other record of the sensor changes neither
  the state nor the console output. Outside the loop, \<^verbatim>\<open>setup\<close> fetches no record in
  \<^verbatim>\<open>v3.ino\<close> and \<^verbatim>\<open>v4.ino\<close>, and twenty records in \<^verbatim>\<open>v2.ino\<close>, which are printed and leave the
  averaging state empty.
\<close>

theorem loop_reads_one_record:
  assumes "f (reads e) = sensor e (reads e)"
  shows "reads (fst (v2_loop (e, s2))) = reads e + 1
       \<and> reads (fst (v3_loop (e, s3))) = reads e + 1
       \<and> reads (fst (v4_loop (e, s4))) = reads e + 1
       \<and> reads (fst ((v2_loop ^^ n) (e, s2))) = reads e + n
       \<and> reads (fst ((v3_loop ^^ n) (e, s3))) = reads e + n
       \<and> reads (fst ((v4_loop ^^ n) (e, s4))) = reads e + n
       \<and> snd (v2_loop (e\<lparr>sensor := f\<rparr>, s2)) = snd (v2_loop (e, s2))
       \<and> serial (fst (v2_loop (e\<lparr>sensor := f\<rparr>, s2))) = serial (fst (v2_loop (e, s2)))
       \<and> snd (v3_loop (e\<lparr>sensor := f\<rparr>, s3)) = snd (v3_loop (e, s3))
       \<and> serial (fst (v3_loop (e\<lparr>sensor := f\<rparr>, s3))) = serial (fst (v3_loop (e, s3)))
       \<and> snd (v4_loop (e\<lparr>sensor := f\<rparr>, s4)) = snd (v4_loop (e, s4))
       \<and> serial (fst (v4_loop (e\<lparr>sensor := f\<rparr>, s4))) = serial (fst (v4_loop (e, s4)))
       \<and> reads (fst (v3_setup e)) = reads e
       \<and> reads (fst (v4_setup e)) = reads e
       \<and> reads (fst (v2_setup e)) = reads e + 20
       \<and> snd (v2_setup e) = v2_empty (clock e (ticks e))"
  using v2_loop_other_readings [of f e s2, OF assms] v3_loop_other_readings [of f e s3, OF assms]
    v4_loop_other_readings [of f e s4, OF assms]
  by (simp add: v2_loop_reads v3_loop_reads v4_loop_reads v2_run_reads v3_run_reads v4_run_reads
      v2_setup_reads v3_setup_reads v4_setup_reads)

text \<open>
  C7 as first stated fails in \<^verbatim>\<open>v2.ino\<close>: before the first iteration of \<^verbatim>\<open>loop\<close>, \<^verbatim>\<open>setup\<close> has
  already fetched twenty records.
\<close>

theorem stabilisation_reads_counterexample:
  "reads (steady (slot 60 70) 5000) = 0
   \<and> reads (fst (v2_setup (steady (slot 60 70) 5000))) = 20"
  by (simp add: v2_setup_reads steady_def board_def)

theorem loop_reads_one_record_witness:
  "reads (fst (v4_loop (steady (slot 60 70) 5100, partial_window))) = 1
   \<and> reads (fst ((v2_loop ^^ 3) (steady (slot 60 70) 5100, four_valid))) = 3
   \<and> snd (v3_loop ((steady (slot 60 70) 5100)\<lparr>sensor := other_records\<rparr>, empty_v3))
       = snd (v3_loop (steady (slot 60 70) 5100, empty_v3))"
proof -
  let ?e = "steady (slot 60 70) 5100"
  have same: "other_records (reads ?e) = sensor ?e (reads ?e)"
    by (simp add: other_records_def steady_def board_def)
  have r: "reads ?e = 0" by (simp add: steady_def board_def)
  show ?thesis
    using loop_reads_one_record [of other_records ?e four_valid empty_v3 partial_window 3, OF same]
    unfolding r by simp
qed

section \<open>The counters stay in range\<close>

lemma printed_chain:
  "serial e1 = serial e @ xs \<Longrightarrow> serial e2 = serial e1 @ ys \<Longrightarrow> printed e e2 = xs @ ys"
  by (simp add: printed_def)

lemma v2_accumulate_serial: "\<exists>xs. serial (fst (v2_accumulate body (e, s))) = serial e @ xs"
  by (simp add: v2_accumulate_def Let_def)

lemma v2_loop_printed:
  "\<exists>xs. printed e (fst (v2_loop (e, s))) =
      xs @ printed (fst (v2_accumulate (sensor e (reads e)) (e\<lparr>reads := Suc (reads e)\<rparr>, s)))
             (fst (v2_display (v2_accumulate (sensor e (reads e)) (e\<lparr>reads := Suc (reads e)\<rparr>, s))))"
proof -
  let ?e1 = "e\<lparr>reads := Suc (reads e)\<rparr>"
  obtain ea sa where a: "v2_accumulate (sensor e (reads e)) (?e1, s) = (ea, sa)"
    by (cases "v2_accumulate (sensor e (reads e)) (?e1, s)")
  obtain xs where xs: "serial ea = serial e @ xs"
    using v2_accumulate_serial [of "sensor e (reads e)" ?e1 s] a by auto
  have "printed e (fst (v2_display (ea, sa))) = xs @ printed ea (fst (v2_display (ea, sa)))"
    by (rule printed_chain [OF xs v2_display_fields(2)])
  then show ?thesis unfolding v2_loop_unfold a by auto
qed

lemma v2_setup_count: "validReadingsCount (snd (v2_setup e)) = 0"
  by (simp add: v2_setup_def Let_def case_prod_beta)

lemma v2_loop_count:
  assumes "validReadingsCount (snd es) < TARGET_READINGS"
  shows "validReadingsCount (snd (v2_loop es)) < TARGET_READINGS"
proof -
  obtain e s where es: "es = (e, s)" by (cases es)
  let ?e1 = "e\<lparr>reads := Suc (reads e)\<rparr>"
  obtain ea sa where a: "v2_accumulate (sensor e (reads e)) (?e1, s) = (ea, sa)"
    by (cases "v2_accumulate (sensor e (reads e)) (?e1, s)")
  have "validReadingsCount sa \<le> validReadingsCount s + 1"
    using v2_accumulate_count [of "sensor e (reads e)" ?e1 s] a by simp
  then show ?thesis
    using assms unfolding es v2_loop_unfold a v2_display_result(2)
    by (simp add: TARGET_READINGS_def)
qed

lemma v2_run_count: "validReadingsCount (snd ((v2_loop ^^ n) (v2_setup e))) < TARGET_READINGS"
proof (induction n)
  case 0
  show ?case by (simp add: v2_setup_count TARGET_READINGS_def)
next
  case (Suc n)
  then show ?case using v2_loop_count [of "(v2_loop ^^ n) (v2_setup e)"] by simp
qed

lemma v2_fifth_reading:
  assumes "validReadingsCount s = 4"
      and "50 < bioData.confidence (sensor e (reads e))"
      and "0 < bioData.heartRate (sensor e (reads e))"
      and "0 < bioData.oxygen (sensor e (reads e))"
  shows "snd (v2_loop (e, s)) =
           \<lparr>validReadingsCount = 0, heartRateSum = 0, oxygenSum = 0, irLedSum = 0, redLedSum = 0,
            v2_state.lastDisplayTime = clock e (ticks e)\<rparr>"
    and "FloatVal ((heartRateSum s + real_of_int (bioData.heartRate (sensor e (reads e)))) / 5) 1
           \<in> set (printed e (fst (v2_loop (e, s))))"
    and "FloatVal ((oxygenSum s + real_of_int (bioData.oxygen (sensor e (reads e)))) / 5) 1
           \<in> set (printed e (fst (v2_loop (e, s))))"
proof -
  let ?b = "sensor e (reads e)"
  let ?e1 = "e\<lparr>reads := Suc (reads e)\<rparr>"
  obtain ea sa where a: "v2_accumulate ?b (?e1, s) = (ea, sa)"
    by (cases "v2_accumulate ?b (?e1, s)")
  have sa: "sa = s\<lparr>heartRateSum := heartRateSum s + real_of_int (bioData.heartRate ?b),
                   oxygenSum := oxygenSum s + real_of_int (bioData.oxygen ?b),
                   irLedSum := irLedSum s + real_of_int (bioData.irLed ?b),
                   redLedSum := redLedSum s + real_of_int (bioData.redLed ?b),
                   validReadingsCount := 5\<rparr>"
    using a assms by (simp add: v2_accumulate_def Let_def)
  have ea: "ticks ea = ticks e" "clock ea = clock e"
    using v2_accumulate_fields(2,3) [of ?b ?e1 s] a by simp_all
  have full: "TARGET_READINGS \<le> validReadingsCount sa" by (simp add: sa TARGET_READINGS_def)
  show "snd (v2_loop (e, s)) =
           \<lparr>validReadingsCount = 0, heartRateSum = 0, oxygenSum = 0, irLedSum = 0, redLedSum = 0,
            v2_state.lastDisplayTime = clock e (ticks e)\<rparr>"
    unfolding v2_loop_unfold a v2_display_result(2) using full ea by (simp add: sa)
  obtain xs where xs: "printed e (fst (v2_loop (e, s))) = xs @ printed ea (fst (v2_display (ea, sa)))"
    using v2_loop_printed [of e s] unfolding a by auto
  show "FloatVal ((heartRateSum s + real_of_int (bioData.heartRate ?b)) / 5) 1
           \<in> set (printed e (fst (v2_loop (e, s))))"
    unfolding xs v2_display_result(1) using full by (simp add: sa)
  show "FloatVal ((oxygenSum s + real_of_int (bioData.oxygen ?b)) / 5) 1
           \<in> set (printed e (fst (v2_loop (e, s))))"
    unfolding xs v2_display_result(1) using full by (simp add: sa)
qed

text \<open>
  C8. In \<^verbatim>\<open>v2.ino\<close> the count of accumulated readings is below \<^verbatim>\<open>TARGET_READINGS\<close> after
  \<^verbatim>\<open>setup\<close> and after every iteration of \<^verbatim>\<open>loop\<close>. The iteration that accumulates the fifth
  reading prints the averages of the five and resets count and sums, whatever the clock
  says.
\<close>

theorem v2_count_below_target:
  "validReadingsCount (snd ((v2_loop ^^ n) (v2_setup e0))) < TARGET_READINGS
   \<and> (validReadingsCount s = 4
       \<and> 50 < bioData.confidence (sensor e (reads e))
       \<and> 0 < bioData.heartRate (sensor e (reads e))
       \<and> 0 < bioData.oxygen (sensor e (reads e)) \<longrightarrow>
         snd (v2_loop (e, s)) =
           \<lparr>validReadingsCount = 0, heartRateSum = 0, oxygenSum = 0, irLedSum = 0, redLedSum = 0,
            v2_state.lastDisplayTime = clock e (ticks e)\<rparr>
       \<and> FloatVal ((heartRateSum s + real_of_int (bioData.heartRate (sensor e (reads e)))) / 5) 1
           \<in> set (printed e (fst (v2_loop (e, s))))
       \<and> FloatVal ((oxygenSum s + real_of_int (bioData.oxygen (sensor e (reads e)))) / 5) 1
           \<in> set (printed e (fst (v2_loop (e, s)))))"
  using v2_run_count [of n e0] v2_fifth_reading [of s e] by blast

theorem v2_count_below_target_witness:
  "clock (steady (slot 60 70) 5100) 0 - v2_state.lastDisplayTime four_valid < DISPLAY_INTERVAL
   \<and> snd (v2_loop (steady (slot 60 70) 5100, four_valid)) =
        \<lparr>validReadingsCount = 0, heartRateSum = 0, oxygenSum = 0, irLedSum = 0, redLedSum = 0,
         v2_state.lastDisplayTime = 5100\<rparr>
   \<and> FloatVal 70 1 \<in> set (printed (steady (slot 60 70) 5100)
        (fst (v2_loop (steady (slot 60 70) 5100, four_valid))))"
proof -
  let ?e = "steady (slot 60 70) 5100"
  have b: "sensor ?e (reads ?e) = slot 60 70" "clock ?e (ticks ?e) = 5100" "clock ?e 0 = 5100"
    by (simp_all add: steady_def board_def)
  have h: "validReadingsCount four_valid = 4 \<and> 50 < bioData.confidence (slot 60 70)
       \<and> 0 < bioData.heartRate (slot 60 70) \<and> 0 < bioData.oxygen (slot 60 70)"
    by (simp add: four_valid_def slot_def)
  have v: "(heartRateSum four_valid + real_of_int (bioData.heartRate (slot 60 70))) / 5 = 70"
    by (simp add: four_valid_def slot_def)
  have early: "(5100 :: 32 word) - v2_state.lastDisplayTime four_valid < DISPLAY_INTERVAL"
    by (simp add: four_valid_def DISPLAY_INTERVAL_def)
  show ?thesis
    using v2_count_below_target [of 0 ?e four_valid ?e] h early unfolding b v by blast
qed

section \<open>The store of \<^verbatim>\<open>v3.ino\<close>\<close>

lemma take_take_append: "take n (take n xs @ ys) = take n (xs @ ys)"
  by (simp add: min_def)

lemma v3_store_step:
  assumes "readingCount s \<le> MAX_READINGS" and "length (readings s) = MAX_READINGS"
  shows "readingCount (v3_store body s) \<le> MAX_READINGS"
    and "length (readings (v3_store body s)) = MAX_READINGS"
    and "stored (v3_store body s) =
           take MAX_READINGS (stored s @ (if confident body then [reading_of body] else []))"
proof -
  show "readingCount (v3_store body s) \<le> MAX_READINGS"
    using assms by (simp add: v3_store_def)
  show "length (readings (v3_store body s)) = MAX_READINGS"
    using assms by (simp add: v3_store_def)
  show "stored (v3_store body s) =
           take MAX_READINGS (stored s @ (if confident body then [reading_of body] else []))"
  proof (cases "confident body \<and> readingCount s < MAX_READINGS")
    case True
    then have "stored (v3_store body s) = stored s @ [reading_of body]"
      using assms
      by (simp add: v3_store_def stored_def confident_def reading_of_def take_Suc_conv_app_nth)
    moreover have "length (stored s) < MAX_READINGS"
      using True assms by (simp add: stored_def)
    ultimately show ?thesis using True by simp
  next
    case False
    then have same: "v3_store body s = s" by (auto simp: v3_store_def confident_def)
    have len: "length (stored s) = readingCount s" using assms by (simp add: stored_def)
    show ?thesis
    proof (cases "confident body")
      case True
      with False assms have "readingCount s = MAX_READINGS" by simp
      with len show ?thesis unfolding same using True by simp
    next
      case False
      with len assms show ?thesis unfolding same by simp
    qed
  qed
qed

lemma v3_window_stored:
  assumes "readingCount s \<le> MAX_READINGS" and "length (readings s) = MAX_READINGS"
  shows "readingCount (v3_window s bodies) \<le> MAX_READINGS
       \<and> length (readings (v3_window s bodies)) = MAX_READINGS
       \<and> stored (v3_window s bodies) =
           take MAX_READINGS (stored s @ map reading_of (filter confident bodies))"
  using assms
proof (induction bodies arbitrary: s)
  case Nil
  then show ?case by (simp add: v3_window_def stored_def)
next
  case (Cons b bodies)
  note step = v3_store_step [OF Cons.prems, of b]
  have w: "v3_window s (b # bodies) = v3_window (v3_store b s) bodies"
    by (simp add: v3_window_def)
  have "take MAX_READINGS (stored (v3_store b s) @ map reading_of (filter confident bodies))
      = take MAX_READINGS ((stored s @ (if confident b then [reading_of b] else []))
          @ map reading_of (filter confident bodies))"
    unfolding step(3) by (rule take_take_append)
  also have "(stored s @ (if confident b then [reading_of b] else []))
          @ map reading_of (filter confident bodies)
      = stored s @ map reading_of (filter confident (b # bodies))"
    by simp
  finally have "take MAX_READINGS (stored (v3_store b s) @ map reading_of (filter confident bodies))
      = take MAX_READINGS (stored s @ map reading_of (filter confident (b # bodies)))" .
  with Cons.IH [OF step(1) step(2)] show ?case unfolding w by simp
qed

lemma v3_store_full: "readingCount s = MAX_READINGS \<Longrightarrow> v3_store body s = s"
  by (simp add: v3_store_def)

lemma v3_setup_count: "readingCount (snd (v3_setup e)) = 0"
  by (simp add: v3_setup_def Let_def case_prod_beta)

lemma v3_loop_count:
  assumes "readingCount (snd es) \<le> MAX_READINGS"
  shows "readingCount (snd (v3_loop es)) \<le> MAX_READINGS"
proof -
  obtain e s where es: "es = (e, s)" by (cases es)
  have "readingCount (v3_store (sensor e (reads e)) s) \<le> MAX_READINGS"
    using assms unfolding es by (simp add: v3_store_def)
  then show ?thesis unfolding es v3_loop_unfold v3_report_result(2) by simp
qed

lemma v3_run_count: "readingCount (snd ((v3_loop ^^ n) (v3_setup e))) \<le> MAX_READINGS"
proof (induction n)
  case 0
  show ?case by (simp add: v3_setup_count)
next
  case (Suc n)
  then show ?case using v3_loop_count [of "(v3_loop ^^ n) (v3_setup e)"] by simp
qed

text \<open>
  C9. In \<^verbatim>\<open>v3.ino\<close>, \<^verbatim>\<open>readingCount\<close> is at most \<^verbatim>\<open>MAX_READINGS\<close> after \<^verbatim>\<open>setup\<close> and after every
  iteration of \<^verbatim>\<open>loop\<close>. Once it equals \<^verbatim>\<open>MAX_READINGS\<close>, storing a reading changes nothing,
  whatever its confidence. So after any sequence of readings stored into an empty
  buffer, the stored part of \<^verbatim>\<open>readings\<close> is the first \<^verbatim>\<open>MAX_READINGS\<close> of the readings with
  confidence above 50, in their order of arrival.
\<close>

theorem v3_buffer_capped:
  "readingCount (snd ((v3_loop ^^ n) (v3_setup e))) \<le> MAX_READINGS
   \<and> (readingCount s = MAX_READINGS \<longrightarrow> v3_store body s = s)
   \<and> (readingCount s0 = 0 \<and> length (readings s0) = MAX_READINGS \<longrightarrow>
        readingCount (v3_window s0 bodies) \<le> MAX_READINGS
        \<and> stored (v3_window s0 bodies) = take MAX_READINGS (map reading_of (filter confident bodies)))"
proof -
  have "stored (v3_window s0 bodies) = take MAX_READINGS (map reading_of (filter confident bodies))
      \<and> readingCount (v3_window s0 bodies) \<le> MAX_READINGS"
    if "readingCount s0 = 0" "length (readings s0) = MAX_READINGS"
    using v3_window_stored [of s0 bodies] that by (simp add: stored_def)
  then show ?thesis using v3_run_count [of n e] v3_store_full [of s body] by blast
qed

theorem v3_buffer_capped_witness:
  "v3_store (slot 90 70) full_v3 = full_v3
   \<and> stored (v3_window empty_v3 [slot 60 70, slot 40 71, slot 90 72])
       = [reading_of (slot 60 70), reading_of (slot 90 72)]"
proof -
  have full: "readingCount full_v3 = MAX_READINGS" by (simp add: full_v3_def)
  have empty: "readingCount empty_v3 = 0 \<and> length (readings empty_v3) = MAX_READINGS"
    by (simp add: empty_v3_def)
  have f: "take MAX_READINGS (map reading_of (filter confident [slot 60 70, slot 40 71, slot 90 72]))
      = [reading_of (slot 60 70), reading_of (slot 90 72)]"
    by (simp add: confident_def slot_def MAX_READINGS_def)
  show ?thesis
    using v3_buffer_capped [of 0 "steady (slot 60 70) 5100" full_v3 "slot 90 70" empty_v3
        "[slot 60 70, slot 40 71, slot 90 72]"] full empty
    unfolding f by blast
qed

section \<open>The sort of \<^verbatim>\<open>v3.ino\<close>\<close>

lemma swap_take:
  assumes "j + 1 < m" and "m \<le> length arr"
  shows "mset (take m ((arr[j := arr ! (j + 1)])[j + 1 := arr ! j])) = mset (take m arr)"
    and "drop m ((arr[j := arr ! (j + 1)])[j + 1 := arr ! j]) = drop m arr"
proof -
  have "take m ((arr[j := arr ! (j + 1)])[j + 1 := arr ! j])
      = ((take m arr)[j := take m arr ! (j + 1)])[j + 1 := take m arr ! j]"
    using assms by (simp add: take_update_swap)
  moreover have "mset (((take m arr)[j := take m arr ! (j + 1)])[j + 1 := take m arr ! j])
      = mset (take m arr)"
    using assms by (intro mset_swap) simp_all
  ultimately show "mset (take m ((arr[j := arr ! (j + 1)])[j + 1 := arr ! j])) = mset (take m arr)"
    by simp
  show "drop m ((arr[j := arr ! (j + 1)])[j + 1 := arr ! j]) = drop m arr"
    using assms by simp
qed

lemma sort_inner_pass:
  assumes "j + i + 1 \<le> n" and "n \<le> length arr"
      and "\<forall>k \<le> j. Reading.confidence (arr ! j) \<le> Reading.confidence (arr ! k)"
  shows "length (sort_inner arr n i j) = length arr
       \<and> mset (take (n - i) (sort_inner arr n i j)) = mset (take (n - i) arr)
       \<and> drop (n - i) (sort_inner arr n i j) = drop (n - i) arr
       \<and> (\<forall>k < n - i. Reading.confidence (sort_inner arr n i j ! (n - i - 1))
                        \<le> Reading.confidence (sort_inner arr n i j ! k))"
  using assms
proof (induction "n - i - 1 - j" arbitrary: j arr)
  case 0
  then have j: "j = n - i - 1" and stop: "\<not> j + i + 1 < n" by simp_all
  have "sort_inner arr n i j = arr" using stop by (subst sort_inner.simps) simp
  moreover have "k \<le> j" if "k < n - i" for k using that j by simp
  ultimately show ?case using "0.prems"(3) j by simp
next
  case (Suc d)
  then have go: "j + i + 1 < n" and d: "d = n - i - 1 - (j + 1)" by simp_all
  let ?arr = "if Reading.confidence (arr ! j) < Reading.confidence (arr ! (j + 1))
              then (arr[j := arr ! (j + 1)])[j + 1 := arr ! j] else arr"
  have unfold: "sort_inner arr n i j = sort_inner ?arr n i (j + 1)"
    using go by (subst sort_inner.simps) simp
  have bound: "j + 1 < n - i" "n - i \<le> length arr" using go Suc.prems by simp_all
  have len: "length ?arr = length arr" by simp
  have least: "\<forall>k \<le> j + 1. Reading.confidence (?arr ! (j + 1)) \<le> Reading.confidence (?arr ! k)"
  proof (intro allI impI)
    fix k assume k: "k \<le> j + 1"
    have jl: "j < length arr" "j + 1 < length arr" using bound by simp_all
    show "Reading.confidence (?arr ! (j + 1)) \<le> Reading.confidence (?arr ! k)"
    proof (cases "Reading.confidence (arr ! j) < Reading.confidence (arr ! (j + 1))")
      case True
      then show ?thesis
        using k jl Suc.prems(3)
        by (cases "k = j + 1"; cases "k = j") (auto simp: nth_list_update)
    next
      case False
      then show ?thesis
        using k jl Suc.prems(3)
        by (cases "k = j + 1") (auto intro: order_trans simp: not_less)
    qed
  qed
  have same: "mset (take (n - i) ?arr) = mset (take (n - i) arr)"
    "drop (n - i) ?arr = drop (n - i) arr"
    using swap_take [OF bound] by simp_all
  have "length (sort_inner ?arr n i (j + 1)) = length ?arr
       \<and> mset (take (n - i) (sort_inner ?arr n i (j + 1))) = mset (take (n - i) ?arr)
       \<and> drop (n - i) (sort_inner ?arr n i (j + 1)) = drop (n - i) ?arr
       \<and> (\<forall>k < n - i. Reading.confidence (sort_inner ?arr n i (j + 1) ! (n - i - 1))
                        \<le> Reading.confidence (sort_inner ?arr n i (j + 1) ! k))"
  proof (rule Suc.hyps(1) [OF d])
    show "j + 1 + i + 1 \<le> n" using go by simp
    show "n \<le> length ?arr" using Suc.prems(2) len by simp
    show "\<forall>k\<le>j + 1. Reading.confidence (?arr ! (j + 1)) \<le> Reading.confidence (?arr ! k)"
      by (rule least)
  qed
  then show ?case unfolding unfold same len by simp
qed

lemma descending_short: "length rs \<le> 1 \<Longrightarrow> descending rs"
  by (cases rs) (simp_all add: descending_def)

lemma descending_append:
  "descending (xs @ ys) =
     (descending xs \<and> descending ys
      \<and> (\<forall>x \<in> set xs. \<forall>y \<in> set ys. Reading.confidence y \<le> Reading.confidence x))"
  by (simp add: descending_def sorted_wrt_append)

lemma split_window:
  assumes "m \<le> n"
  shows "take n arr = take m arr @ drop m (take n arr)"
proof -
  have "take m (take n arr) = take m arr" using assms by (simp add: min.absorb1)
  then show ?thesis by (metis append_take_drop_id)
qed

lemma sort_outer_sorts:
  assumes "n \<le> length arr"
      and "descending (drop (n - i) (take n arr))"
      and "\<forall>x \<in> set (take (n - i) arr). \<forall>y \<in> set (drop (n - i) (take n arr)).
             Reading.confidence y \<le> Reading.confidence x"
  shows "length (sort_outer arr n i) = length arr
       \<and> mset (take n (sort_outer arr n i)) = mset (take n arr)
       \<and> drop n (sort_outer arr n i) = drop n arr
       \<and> descending (take n (sort_outer arr n i))"
  using assms
proof (induction "n - i" arbitrary: i arr rule: less_induct)
  case less
  show ?case
  proof (cases "i + 1 < n")
    case False
    then have stop: "sort_outer arr n i = arr" by (subst sort_outer.simps) simp
    have short: "length (take (n - i) arr) \<le> 1" using False by simp
    have "take n arr = take (n - i) arr @ drop (n - i) (take n arr)"
      by (rule split_window) simp
    then have "descending (take n arr)"
      using descending_append [of "take (n - i) arr" "drop (n - i) (take n arr)"]
        descending_short [OF short] less.prems(2,3) by simp
    then show ?thesis unfolding stop by simp
  next
    case True
    let ?m = "n - i"
    let ?arr = "sort_inner arr n i 0"
    have unfold: "sort_outer arr n i = sort_outer ?arr n (i + 1)"
      using True by (subst sort_outer.simps) simp
    have pass: "length ?arr = length arr"
      "mset (take ?m ?arr) = mset (take ?m arr)"
      "drop ?m ?arr = drop ?m arr"
      "\<forall>k < ?m. Reading.confidence (?arr ! (?m - 1)) \<le> Reading.confidence (?arr ! k)"
      using sort_inner_pass [of 0 i n arr] True less.prems(1) by simp_all
    have m: "0 < ?m" "?m \<le> n" "?m \<le> length ?arr" "n - (i + 1) = ?m - 1"
      using True less.prems(1) pass(1) by simp_all
    have tail: "drop ?m (take n ?arr) = drop ?m (take n arr)"
      using pass(3) by (simp add: drop_take)
    have sets: "set (take ?m ?arr) = set (take ?m arr)"
      using pass(2) by (rule mset_eq_setD)
    have suc: "Suc (?m - 1) = ?m" using m(1) by simp
    have "?m - 1 < length ?arr" using m by simp
    then have "take (Suc (?m - 1)) ?arr = take (?m - 1) ?arr @ [?arr ! (?m - 1)]"
      by (rule take_Suc_conv_app_nth)
    then have front: "take ?m ?arr = take (?m - 1) ?arr @ [?arr ! (?m - 1)]"
      unfolding suc .
    have last_in: "?arr ! (?m - 1) \<in> set (take ?m arr)"
      using front sets by (metis in_set_conv_decomp)
    have before_in: "x \<in> set (take ?m arr)" if "x \<in> set (take (?m - 1) ?arr)" for x
      using that front sets by (metis Un_iff set_append)
    have new_tail: "drop (?m - 1) (take n ?arr) = ?arr ! (?m - 1) # drop ?m (take n arr)"
    proof -
      have "?m - 1 < length (take n ?arr)" using m less.prems(1) pass(1) by simp
      then have "drop (?m - 1) (take n ?arr)
          = take n ?arr ! (?m - 1) # drop (Suc (?m - 1)) (take n ?arr)"
        by (rule Cons_nth_drop_Suc [symmetric])
      moreover have "take n ?arr ! (?m - 1) = ?arr ! (?m - 1)" using m by simp
      ultimately show ?thesis unfolding suc tail by simp
    qed
    have least: "Reading.confidence (?arr ! (?m - 1)) \<le> Reading.confidence x"
      if "x \<in> set (take (?m - 1) ?arr)" for x
    proof -
      from that obtain k where "k < ?m - 1" "k < length ?arr" "x = ?arr ! k"
        by (auto simp: in_set_conv_nth)
      then show ?thesis using pass(4) by simp
    qed
    have inv1: "descending (drop (n - (i + 1)) (take n ?arr))"
      unfolding m(4) new_tail using less.prems(2,3) last_in
      by (simp add: descending_def)
    have inv2: "\<forall>x \<in> set (take (n - (i + 1)) ?arr). \<forall>y \<in> set (drop (n - (i + 1)) (take n ?arr)).
             Reading.confidence y \<le> Reading.confidence x"
      unfolding m(4) new_tail using less.prems(3) least before_in by auto
    have IH: "length (sort_outer ?arr n (i + 1)) = length ?arr
       \<and> mset (take n (sort_outer ?arr n (i + 1))) = mset (take n ?arr)
       \<and> drop n (sort_outer ?arr n (i + 1)) = drop n ?arr
       \<and> descending (take n (sort_outer ?arr n (i + 1)))"
    proof (rule less.hyps)
      show "n - (i + 1) < n - i" using True by simp
      show "n \<le> length ?arr" using less.prems(1) pass(1) by simp
      show "descending (drop (n - (i + 1)) (take n ?arr))" by (rule inv1)
      show "\<forall>x \<in> set (take (n - (i + 1)) ?arr). \<forall>y \<in> set (drop (n - (i + 1)) (take n ?arr)).
             Reading.confidence y \<le> Reading.confidence x" by (rule inv2)
    qed
    have whole: "mset (take n ?arr) = mset (take n arr)"
    proof -
      have "take n ?arr = take ?m ?arr @ drop ?m (take n ?arr)" by (rule split_window [OF m(2)])
      moreover have "take n arr = take ?m arr @ drop ?m (take n arr)" by (rule split_window [OF m(2)])
      ultimately show ?thesis using pass(2) tail by (metis mset_append)
    qed
    have rest: "drop n ?arr = drop n arr"
    proof -
      have "drop n ?arr = drop (n - ?m) (drop ?m ?arr)" using m(2) by simp
      also have "\<dots> = drop (n - ?m) (drop ?m arr)" unfolding pass(3) ..
      also have "\<dots> = drop n arr" using m(2) by simp
      finally show ?thesis .
    qed
    show ?thesis unfolding unfold using IH whole rest pass(1) by simp
  qed
qed

lemma sortReadingsByConfidence_sorts:
  assumes "n \<le> length arr"
  shows "length (sortReadingsByConfidence arr n) = length arr"
    and "mset (take n (sortReadingsByConfidence arr n)) = mset (take n arr)"
    and "drop n (sortReadingsByConfidence arr n) = drop n arr"
    and "descending (take n (sortReadingsByConfidence arr n))"
  using sort_outer_sorts [of n arr 0] assms
  by (simp_all add: sortReadingsByConfidence_def descending_def)

section \<open>The best five of a window\<close>














































section \<open>The reported averages\<close>

lemma v2_accumulate_sums:
  shows "validReadingsCount (snd (v2_accumulate body es)) =
           validReadingsCount (snd es) + (if accepted_v2 body then 1 else 0)"
    and "heartRateSum (snd (v2_accumulate body es)) =
           heartRateSum (snd es) + (if accepted_v2 body then real_of_int (bioData.heartRate body) else 0)"
    and "oxygenSum (snd (v2_accumulate body es)) =
           oxygenSum (snd es) + (if accepted_v2 body then real_of_int (bioData.oxygen body) else 0)"
    and "irLedSum (snd (v2_accumulate body es)) =
           irLedSum (snd es) + (if accepted_v2 body then real_of_int (bioData.irLed body) else 0)"
    and "redLedSum (snd (v2_accumulate body es)) =
           redLedSum (snd es) + (if accepted_v2 body then real_of_int (bioData.redLed body) else 0)"
    and "v2_state.lastDisplayTime (snd (v2_accumulate body es)) = v2_state.lastDisplayTime (snd es)"
    and "ticks (fst (v2_accumulate body es)) = ticks (fst es)"
    and "clock (fst (v2_accumulate body es)) = clock (fst es)"
  by (cases es; simp add: v2_accumulate_def accepted_v2_def Let_def)+

lemma v2_window_step: "v2_window es (b # bodies) = v2_window (v2_accumulate b es) bodies"
  by (simp add: v2_window_def)

lemma v2_window_sums:
  "validReadingsCount (snd (v2_window es bodies)) =
           validReadingsCount (snd es) + length (filter accepted_v2 bodies)
   \<and> heartRateSum (snd (v2_window es bodies)) =
           heartRateSum (snd es) + real_of_int (sum_list (map bioData.heartRate (filter accepted_v2 bodies)))
   \<and> oxygenSum (snd (v2_window es bodies)) =
           oxygenSum (snd es) + real_of_int (sum_list (map bioData.oxygen (filter accepted_v2 bodies)))
   \<and> irLedSum (snd (v2_window es bodies)) =
           irLedSum (snd es) + real_of_int (sum_list (map bioData.irLed (filter accepted_v2 bodies)))
   \<and> redLedSum (snd (v2_window es bodies)) =
           redLedSum (snd es) + real_of_int (sum_list (map bioData.redLed (filter accepted_v2 bodies)))
   \<and> v2_state.lastDisplayTime (snd (v2_window es bodies)) = v2_state.lastDisplayTime (snd es)
   \<and> ticks (fst (v2_window es bodies)) = ticks (fst es)
   \<and> clock (fst (v2_window es bodies)) = clock (fst es)"
proof (induction bodies arbitrary: es)
  case Nil
  show ?case by (simp add: v2_window_def)
next
  case (Cons b bodies)
  show ?case
    unfolding v2_window_step using Cons.IH [of "v2_accumulate b es"]
    by (simp add: v2_accumulate_sums)
qed

lemma v2_window_report:
  assumes "filter accepted_v2 bodies \<noteq> []"
      and "DISPLAY_INTERVAL \<le> clock e (ticks e) - t
           \<or> TARGET_READINGS \<le> length (filter accepted_v2 bodies)"
  shows "printed (fst (v2_window (e, v2_empty t) bodies))
           (fst (v2_display (v2_window (e, v2_empty t) bodies))) =
         [Text ''========================================'', Newline,
          Text ''AVERAGES ('', IntVal (int (length (filter accepted_v2 bodies))),
          Text '' valid readings):'', Newline,
          Text ''Average Heart Rate: '',
          FloatVal (mean (map bioData.heartRate (filter accepted_v2 bodies))) 1, Text '' BPM'', Newline,
          Text ''Average Blood Oxygen: '',
          FloatVal (mean (map bioData.oxygen (filter accepted_v2 bodies))) 1, Text ''%'', Newline,
          Text ''Average IR LED counts: '',
          FloatVal (mean (map bioData.irLed (filter accepted_v2 bodies))) 0, Newline,
          Text ''Average Red LED counts: '',
          FloatVal (mean (map bioData.redLed (filter accepted_v2 bodies))) 0, Newline,
          Text ''========================================'', Newline]"
proof -
  obtain e1 s1 where es: "v2_window (e, v2_empty t) bodies = (e1, s1)"
    by (cases "v2_window (e, v2_empty t) bodies")
  have f: "validReadingsCount s1 = length (filter accepted_v2 bodies)"
    "heartRateSum s1 = real_of_int (sum_list (map bioData.heartRate (filter accepted_v2 bodies)))"
    "oxygenSum s1 = real_of_int (sum_list (map bioData.oxygen (filter accepted_v2 bodies)))"
    "irLedSum s1 = real_of_int (sum_list (map bioData.irLed (filter accepted_v2 bodies)))"
    "redLedSum s1 = real_of_int (sum_list (map bioData.redLed (filter accepted_v2 bodies)))"
    "v2_state.lastDisplayTime s1 = t" "ticks e1 = ticks e" "clock e1 = clock e"
    using v2_window_sums [of "(e, v2_empty t)" bodies] unfolding es
    by (simp_all add: v2_empty_def)
  have pos: "0 < length (filter accepted_v2 bodies)" using assms(1) by simp
  show ?thesis
    unfolding es fst_conv v2_display_result(1) f using assms(2) pos
    by (simp add: mean_def)
qed

lemma v3_sum_from:
  assumes "n \<le> length rs" and "i \<le> n"
  shows "v3_sum rs n i (a, b, c, d, f) =
     (a + real_of_int (sum_list (map Reading.heartRate (drop i (take n rs)))),
      b + real_of_int (sum_list (map Reading.oxygen (drop i (take n rs)))),
      c + real_of_int (sum_list (map Reading.confidence (drop i (take n rs)))),
      d + word_of_int (sum_list (map Reading.irLed (drop i (take n rs)))),
      f + word_of_int (sum_list (map Reading.redLed (drop i (take n rs)))))"
  using assms
proof (induction "n - i" arbitrary: i a b c d f)
  case 0
  then show ?case by (subst v3_sum.simps) simp
next
  case (Suc k)
  then have lt: "i < n" and k: "k = n - (i + 1)" by simp_all
  have "i < length (take n rs)" using lt Suc.prems by simp
  then have "drop i (take n rs) = take n rs ! i # drop (Suc i) (take n rs)"
    by (rule Cons_nth_drop_Suc [symmetric])
  then have drop: "drop i (take n rs) = rs ! i # drop (i + 1) (take n rs)"
    using lt by simp
  show ?case
    using lt Suc.prems Suc.hyps(1) [OF k]
    by (subst v3_sum.simps) (simp add: drop)
qed

lemma sdiv_within:
  assumes "0 < l" and "- (2 ^ 31) \<le> k" and "k < 2 ^ 31"
  shows "- (2 ^ 31) \<le> k sdiv l \<and> k sdiv l < (2 ^ 31 :: int)"
proof (cases "0 \<le> k")
  case True
  then have "k sdiv l = k div l" using assms(1) by (simp add: signed_divide_int_def sgn_if)
  moreover have "0 \<le> k div l" using True assms(1) by (simp add: pos_imp_zdiv_nonneg_iff)
  moreover have "k div l \<le> k div 1" using True assms(1) by (intro zdiv_mono2) simp_all
  ultimately show ?thesis using assms(3) by simp
next
  case False
  then have "k sdiv l = - ((- k) div l)" using assms(1) by (simp add: signed_divide_int_def sgn_if)
  moreover have "0 \<le> (- k) div l" using False assms(1) by (simp add: pos_imp_zdiv_nonneg_iff)
  moreover have "(- k) div l \<le> (- k) div 1" using False assms(1) by (intro zdiv_mono2) simp_all
  ultimately show ?thesis using assms(2) by simp
qed

lemma long_value_within: "- (2 ^ 31) \<le> x \<Longrightarrow> x < 2 ^ 31 \<Longrightarrow> long_value x = x"
  by (simp add: long_value_def int_word_sint)

lemma long_quotient:
  assumes "0 < n"
  shows "sint (word_of_int (sint (word_of_int x :: 32 word) sdiv int n) :: 32 word)
           = long_value x sdiv int n"
proof -
  let ?k = "sint (word_of_int x :: 32 word)"
  have "- (2 ^ 31) \<le> ?k" "?k < 2 ^ 31"
    using sint_ge [of "word_of_int x :: 32 word"] sint_lt [of "word_of_int x :: 32 word"] by simp_all
  then have "- (2 ^ 31) \<le> ?k sdiv int n \<and> ?k sdiv int n < 2 ^ 31"
    using assms by (intro sdiv_within) simp_all
  then have "long_value (?k sdiv int n) = ?k sdiv int n"
    by (intro long_value_within) simp_all
  then show ?thesis by (simp add: long_value_def)
qed

lemma v3_averages_means:
  assumes "0 < n" and "n \<le> length rs"
  shows "v3_averages rs n =
     (mean (map Reading.heartRate (take n rs)),
      mean (map Reading.oxygen (take n rs)),
      mean (map Reading.confidence (take n rs)),
      word_of_int (sint (word_of_int (sum_list (map Reading.irLed (take n rs))) :: 32 word) sdiv int n),
      word_of_int (sint (word_of_int (sum_list (map Reading.redLed (take n rs))) :: 32 word) sdiv int n))"
  using assms v3_sum_from [of n rs 0 0 0 0 0 0]
  by (simp add: v3_averages_def mean_def)

lemma v3_report_means:
  assumes "DISPLAY_INTERVAL \<le> clock e (ticks e) - v3_state.lastDisplayTime s"
      and "0 < readingCount s" and "readingCount s \<le> length (readings s)"
  shows "printed e (fst (v3_report (e, s))) =
     [Newline, Text ''=== AVERAGED RESULTS (Top '', IntVal (int (min 5 (readingCount s))),
      Text '' readings) ==='', Newline,
      Text ''Average Heartrate: '',
      FloatVal (mean (map Reading.heartRate (take (min 5 (readingCount s))
         (sortReadingsByConfidence (readings s) (readingCount s))))) 1, Newline,
      Text ''Average Blood Oxygen: '',
      FloatVal (mean (map Reading.oxygen (take (min 5 (readingCount s))
         (sortReadingsByConfidence (readings s) (readingCount s))))) 1, Newline,
      Text ''Average Confidence: '',
      FloatVal (mean (map Reading.confidence (take (min 5 (readingCount s))
         (sortReadingsByConfidence (readings s) (readingCount s))))) 1, Newline,
      Text ''Average IR LED: '',
      IntVal (long_value (sum_list (map Reading.irLed (take (min 5 (readingCount s))
         (sortReadingsByConfidence (readings s) (readingCount s)))))
           sdiv int (min 5 (readingCount s))), Newline,
      Text ''Average Red LED: '',
      IntVal (long_value (sum_list (map Reading.redLed (take (min 5 (readingCount s))
         (sortReadingsByConfidence (readings s) (readingCount s)))))
           sdiv int (min 5 (readingCount s))), Newline,
      Text ''Total readings collected: '', IntVal (int (readingCount s)), Newline,
      Text ''================================'', Newline, Newline]"
proof -
  let ?rs = "sortReadingsByConfidence (readings s) (readingCount s)"
  let ?n = "min 5 (readingCount s)"
  have len: "length ?rs = length (readings s)"
    by (rule sortReadingsByConfidence_sorts(1) [OF assms(3)])
  have n: "0 < ?n" "?n \<le> length ?rs" using assms(2,3) len by simp_all
  show ?thesis
    unfolding v3_report_result(1) v3_averages_means [OF n] using assms(1,2)
    by (simp add: long_quotient [OF n(1)])
qed

lemma v4_report_means:
  assumes "length (topReadings s) = NUM_READINGS"
      and "reportInterval \<le> clock e (ticks e) - lastReportTime s"
  shows "printed e (fst (v4_report (e, s))) =
     [Text ''----------------------------------------'', Newline] @
     (if length (populated (topReadings s)) = NUM_READINGS
      then [Text ''Time: '', IntVal (uint (clock e (ticks e + 2) div 1000)), Text ''s'', Newline,
            Text ''Averaged Report (from top 5 readings):'', Newline,
            Text ''Average Heart Rate: '',
            FloatVal (mean (map bioData.heartRate (populated (topReadings s)))) 2, Newline,
            Text ''Average SpO2: '',
            FloatVal (mean (map bioData.oxygen (populated (topReadings s)))) 2, Newline]
      else [Text ''Collecting high-confidence data... ('',
            IntVal (int (length (populated (topReadings s)))), Text ''/'',
            IntVal (int NUM_READINGS), Text '' collected)'', Newline]) @
     [Text ''----------------------------------------'', Newline]"
  unfolding v4_report_due(1) [OF assms] by (simp add: mean_def)

text \<open>
  C2, as amended, with the \<^verbatim>\<open>float\<close> arithmetic of the sketches taken as exact. In \<^verbatim>\<open>v2.ino\<close>,
  a report made after a window with at least one accepted reading prints, for heart rate,
  oxygen and the two LED intensities, the arithmetic mean over the accepted readings of
  the window. In \<^verbatim>\<open>v3.ino\<close> a report prints the arithmetic mean of heart rate, oxygen and
  confidence over the first \<open>min 5 readingCount\<close> sorted entries; for each of the two LED
  intensities it prints the sum over those entries, as a 32-bit \<^verbatim>\<open>long\<close> holds it, divided
  by their number as integers, truncated towards zero. That \<^verbatim>\<open>long\<close> holds the sum itself
  whenever the sum lies between \<open>- 2^31\<close> and \<open>2^31 - 1\<close>. In \<^verbatim>\<open>v4.ino\<close> averages are
  printed only when all five slots are populated, and are then the arithmetic mean of
  heart rate and of oxygen over the five slots.
\<close>

theorem reported_averages:
  "(filter accepted_v2 bodies \<noteq> []
     \<and> (DISPLAY_INTERVAL \<le> clock e (ticks e) - t
         \<or> TARGET_READINGS \<le> length (filter accepted_v2 bodies)) \<longrightarrow>
     printed (fst (v2_window (e, v2_empty t) bodies))
           (fst (v2_display (v2_window (e, v2_empty t) bodies))) =
         [Text ''========================================'', Newline,
          Text ''AVERAGES ('', IntVal (int (length (filter accepted_v2 bodies))),
          Text '' valid readings):'', Newline,
          Text ''Average Heart Rate: '',
          FloatVal (mean (map bioData.heartRate (filter accepted_v2 bodies))) 1, Text '' BPM'', Newline,
          Text ''Average Blood Oxygen: '',
          FloatVal (mean (map bioData.oxygen (filter accepted_v2 bodies))) 1, Text ''%'', Newline,
          Text ''Average IR LED counts: '',
          FloatVal (mean (map bioData.irLed (filter accepted_v2 bodies))) 0, Newline,
          Text ''Average Red LED counts: '',
          FloatVal (mean (map bioData.redLed (filter accepted_v2 bodies))) 0, Newline,
          Text ''========================================'', Newline])
   \<and> (DISPLAY_INTERVAL \<le> clock e (ticks e) - v3_state.lastDisplayTime s3
       \<and> 0 < readingCount s3 \<and> readingCount s3 \<le> length (readings s3) \<longrightarrow>
     printed e (fst (v3_report (e, s3))) =
     [Newline, Text ''=== AVERAGED RESULTS (Top '', IntVal (int (min 5 (readingCount s3))),
      Text '' readings) ==='', Newline,
      Text ''Average Heartrate: '',
      FloatVal (mean (map Reading.heartRate (take (min 5 (readingCount s3))
         (sortReadingsByConfidence (readings s3) (readingCount s3))))) 1, Newline,
      Text ''Average Blood Oxygen: '',
      FloatVal (mean (map Reading.oxygen (take (min 5 (readingCount s3))
         (sortReadingsByConfidence (readings s3) (readingCount s3))))) 1, Newline,
      Text ''Average Confidence: '',
      FloatVal (mean (map Reading.confidence (take (min 5 (readingCount s3))
         (sortReadingsByConfidence (readings s3) (readingCount s3))))) 1, Newline,
      Text ''Average IR LED: '',
      IntVal (long_value (sum_list (map Reading.irLed (take (min 5 (readingCount s3))
         (sortReadingsByConfidence (readings s3) (readingCount s3)))))
           sdiv int (min 5 (readingCount s3))), Newline,
      Text ''Average Red LED: '',
      IntVal (long_value (sum_list (map Reading.redLed (take (min 5 (readingCount s3))
         (sortReadingsByConfidence (readings s3) (readingCount s3)))))
           sdiv int (min 5 (readingCount s3))), Newline,
      Text ''Total readings collected: '', IntVal (int (readingCount s3)), Newline,
      Text ''================================'', Newline, Newline])
   \<and> (length (topReadings s4) = NUM_READINGS
       \<and> reportInterval \<le> clock e (ticks e) - lastReportTime s4 \<longrightarrow>
     printed e (fst (v4_report (e, s4))) =
     [Text ''----------------------------------------'', Newline] @
     (if length (populated (topReadings s4)) = NUM_READINGS
      then [Text ''Time: '', IntVal (uint (clock e (ticks e + 2) div 1000)), Text ''s'', Newline,
            Text ''Averaged Report (from top 5 readings):'', Newline,
            Text ''Average Heart Rate: '',
            FloatVal (mean (map bioData.heartRate (populated (topReadings s4)))) 2, Newline,
            Text ''Average SpO2: '',
            FloatVal (mean (map bioData.oxygen (populated (topReadings s4)))) 2, Newline]
      else [Text ''Collecting high-confidence data... ('',
            IntVal (int (length (populated (topReadings s4)))), Text ''/'',
            IntVal (int NUM_READINGS), Text '' collected)'', Newline]) @
     [Text ''----------------------------------------'', Newline])
   \<and> (- (2 ^ 31) \<le> x \<and> x < 2 ^ 31 \<longrightarrow> long_value x = x)"
  using v2_window_report [of bodies e t] v3_report_means [of e s3] v4_report_means [of s4 e]
    long_value_within [of x]
  by blast

lemma two_leds_sorted:
  "take (min 5 (readingCount two_leds)) (sortReadingsByConfidence (readings two_leds) (readingCount two_leds))
     = [led_reading 80 70 1 10, led_reading 60 72 2 20]"
  by (simp add: two_leds_def sortReadingsByConfidence_def sort_outer.simps sort_inner.simps
      led_reading_def)

text \<open>
  C2 as first stated fails for the LED averages of \<^verbatim>\<open>v3.ino\<close>. With two stored readings
  whose IR intensities are 1 and 2, the report prints 1 as their average; the arithmetic
  mean is 3/2.
\<close>

theorem led_average_truncated_counterexample:
  "printed (steady (slot 0 0) 6000)
      (fst (v3_report (steady (slot 0 0) 6000, two_leds))) =
     [Newline, Text ''=== AVERAGED RESULTS (Top '', IntVal 2, Text '' readings) ==='', Newline,
      Text ''Average Heartrate: '', FloatVal 71 1, Newline,
      Text ''Average Blood Oxygen: '', FloatVal 97 1, Newline,
      Text ''Average Confidence: '', FloatVal 70 1, Newline,
      Text ''Average IR LED: '', IntVal 1, Newline,
      Text ''Average Red LED: '', IntVal 15, Newline,
      Text ''Total readings collected: '', IntVal 2, Newline,
      Text ''================================'', Newline, Newline]
   \<and> mean (map Reading.irLed
        (take (min 5 (readingCount two_leds))
           (sortReadingsByConfidence (readings two_leds) (readingCount two_leds)))) = 3 / 2
   \<and> real_of_int 1 \<noteq> mean (map Reading.irLed
        (take (min 5 (readingCount two_leds))
           (sortReadingsByConfidence (readings two_leds) (readingCount two_leds))))"
proof -
  let ?e = "steady (slot 0 0) 6000"
  have due: "DISPLAY_INTERVAL \<le> clock ?e (ticks ?e) - v3_state.lastDisplayTime two_leds"
    by (simp add: steady_def board_def two_leds_def DISPLAY_INTERVAL_def)
  have n: "0 < readingCount two_leds" "readingCount two_leds \<le> length (readings two_leds)"
    "min 5 (readingCount two_leds) = 2" "readingCount two_leds = 2"
    by (simp_all add: two_leds_def)
  have vals: "mean (map Reading.heartRate [led_reading 80 70 1 10, led_reading 60 72 2 20]) = 71"
    "mean (map Reading.oxygen [led_reading 80 70 1 10, led_reading 60 72 2 20]) = 97"
    "mean (map Reading.confidence [led_reading 80 70 1 10, led_reading 60 72 2 20]) = 70"
    "mean (map Reading.irLed [led_reading 80 70 1 10, led_reading 60 72 2 20]) = 3 / 2"
    "long_value (sum_list (map Reading.irLed [led_reading 80 70 1 10, led_reading 60 72 2 20])) sdiv 2 = 1"
    "long_value (sum_list (map Reading.redLed [led_reading 80 70 1 10, led_reading 60 72 2 20])) sdiv 2 = 15"
    by (simp_all add: mean_def led_reading_def signed_divide_int_def long_value_within)
  show ?thesis
    unfolding v3_report_means [OF due n(1,2)] two_leds_sorted vals
    unfolding n by (simp add: vals led_reading_def signed_divide_int_def long_value_within)
qed

lemma big_leds_sorted:
  "take (min 5 (readingCount big_leds)) (sortReadingsByConfidence (readings big_leds) (readingCount big_leds))
     = replicate 5 (led_reading 80 70 2000000000 10)"
  by (simp add: big_leds_def sortReadingsByConfidence_def sort_outer.simps sort_inner.simps
      numeral_eq_Suc)

theorem reported_averages_witness:
  "FloatVal 71 1 \<in> set (printed (fst (v2_window (steady (slot 0 0) 6000, v2_empty 5000) three_readings))
        (fst (v2_display (v2_window (steady (slot 0 0) 6000, v2_empty 5000) three_readings))))
   \<and> IntVal 15 \<in> set (printed (steady (slot 0 0) 6000)
        (fst (v3_report (steady (slot 0 0) 6000, two_leds))))
   \<and> IntVal 282013081 \<in> set (printed (steady (slot 0 0) 6000)
        (fst (v3_report (steady (slot 0 0) 6000, big_leds))))
   \<and> FloatVal 72 2 \<in> set (printed (steady (slot 0 0) 6000)
        (fst (v4_report (steady (slot 0 0) 6000, full_window))))
   \<and> long_value 30 = 30"
proof -
  let ?e = "steady (slot 0 0) 6000"
  have acc: "filter accepted_v2 three_readings = [slot 60 70, slot 90 72]"
    by (simp add: three_readings_def accepted_v2_def slot_def)
  have v2: "filter accepted_v2 three_readings \<noteq> []
     \<and> (DISPLAY_INTERVAL \<le> clock ?e (ticks ?e) - 5000
         \<or> TARGET_READINGS \<le> length (filter accepted_v2 three_readings))"
    unfolding acc by (simp add: steady_def board_def DISPLAY_INTERVAL_def)
  have v3: "DISPLAY_INTERVAL \<le> clock ?e (ticks ?e) - v3_state.lastDisplayTime two_leds
       \<and> 0 < readingCount two_leds \<and> readingCount two_leds \<le> length (readings two_leds)"
    by (simp add: steady_def board_def two_leds_def DISPLAY_INTERVAL_def)
  have v3': "DISPLAY_INTERVAL \<le> clock ?e (ticks ?e) - v3_state.lastDisplayTime big_leds
       \<and> 0 < readingCount big_leds \<and> readingCount big_leds \<le> length (readings big_leds)"
    by (simp add: steady_def board_def big_leds_def DISPLAY_INTERVAL_def)
  have v4: "length (topReadings full_window) = NUM_READINGS
       \<and> reportInterval \<le> clock ?e (ticks ?e) - lastReportTime full_window"
    by (simp add: steady_def board_def full_window_def NUM_READINGS_def reportInterval_def)
  have range: "- (2 ^ 31) \<le> (30 :: int) \<and> (30 :: int) < 2 ^ 31" by simp
  have pop: "populated (topReadings full_window) = topReadings full_window"
    "length (topReadings full_window) = NUM_READINGS"
    by (simp_all add: populated_def full_window_def slot_def NUM_READINGS_def)
  have vals: "mean (map bioData.heartRate [slot 60 70, slot 90 72]) = 71"
    "mean (map bioData.heartRate (topReadings full_window)) = 72"
    by (simp_all add: mean_def slot_def full_window_def)
  have leds: "long_value (sum_list (map Reading.redLed [led_reading 80 70 1 10, led_reading 60 72 2 20]))
        sdiv int (min 5 (readingCount two_leds)) = 15"
    "long_value (sum_list (map Reading.irLed (replicate 5 (led_reading 80 70 2000000000 10))))
        sdiv int (min 5 (readingCount big_leds)) = 282013081"
    by (simp_all add: led_reading_def two_leds_def big_leds_def signed_divide_int_def
        long_value_def numeral_eq_Suc)
  note t = reported_averages [of three_readings ?e 5000 two_leds full_window 30]
  note t' = reported_averages [of three_readings ?e 5000 big_leds full_window 30]
  note p2 = t [THEN conjunct1, THEN mp, OF v2]
  note p3 = t [THEN conjunct2, THEN conjunct1, THEN mp, OF v3]
  note p3' = t' [THEN conjunct2, THEN conjunct1, THEN mp, OF v3']
  note p4 = t [THEN conjunct2, THEN conjunct2, THEN conjunct1, THEN mp, OF v4]
  note p5 = t [THEN conjunct2, THEN conjunct2, THEN conjunct2, THEN mp, OF range]
  have a: "FloatVal 71 1 \<in> set (printed (fst (v2_window (?e, v2_empty 5000) three_readings))
        (fst (v2_display (v2_window (?e, v2_empty 5000) three_readings))))"
    unfolding p2 acc vals by simp
  have b: "IntVal 15 \<in> set (printed ?e (fst (v3_report (?e, two_leds))))"
    unfolding p3 two_leds_sorted leds by simp
  have b': "IntVal 282013081 \<in> set (printed ?e (fst (v3_report (?e, big_leds))))"
    unfolding p3' big_leds_sorted leds by simp
  have c: "FloatVal 72 2 \<in> set (printed ?e (fst (v4_report (?e, full_window))))"
    unfolding p4 pop vals by simp
  from a b b' c p5 show ?thesis by blast
qed

end
